theory Spec2Isabelle
  imports Complex_Main
begin

section \<open>Matching and quotation engine of the catalog search (App.tsx)\<close>

text \<open>
  The development embeds the pure functions of \<^verbatim>\<open>src/App.tsx\<close> (text normalization,
  edit distance, relevance score, ranking, quotation state and totals), the fallback of
  \<^verbatim>\<open>src/services/geminiService.ts\<close>, and the second, older copy of the App component
  found in \<^verbatim>\<open>src/unnamed/part_001\<close>, whose functions carry the suffix \<open>_strict\<close>.

  Conventions of the embedding.
  \<^item> A JavaScript string is the list of its UTF-16 code units. The model takes strings
    over the code points U+0000 to U+00FF (Latin-1, which holds the Portuguese text of the
    catalog and of the tables below), one \<^typ>\<open>char\<close> per code unit; \<open>length\<close> is the
    JavaScript \<^verbatim>\<open>length\<close>.
  \<^item> A JavaScript number is a rational. Every number the engine computes is an integer
    or a product of a weight with one of 1, 0.9, 0.8, 0.6; in IEEE double arithmetic these
    products are the exact integers (for example 0.9 * 4500 = 4050), so the rational value
    is the computed value. NaN and the infinities are outside the model.
  \<^item> A thrown exception is a value \<open>Inl e\<close> of a sum type.
\<close>

subsection \<open>Text normalization (\<^verbatim>\<open>normalizeText\<close>)\<close>

text \<open>
  \<^verbatim>\<open>text.toLowerCase()\<close>. On Latin-1 the Unicode lower-case mapping acts on single
  characters: A to Z and U+00C0 to U+00DE without the multiplication sign U+00D7 move 32
  places up, every other character is unchanged.
\<close>

definition upperToLower :: "(char \<times> char) list" where
  "upperToLower =
     zip ''ABCDEFGHIJKLMNOPQRSTUVWXYZ'' ''abcdefghijklmnopqrstuvwxyz'' @
     [(CHR 0xC0, CHR 0xE0), (CHR 0xC1, CHR 0xE1), (CHR 0xC2, CHR 0xE2), (CHR 0xC3, CHR 0xE3),
      (CHR 0xC4, CHR 0xE4), (CHR 0xC5, CHR 0xE5), (CHR 0xC6, CHR 0xE6), (CHR 0xC7, CHR 0xE7),
      (CHR 0xC8, CHR 0xE8), (CHR 0xC9, CHR 0xE9), (CHR 0xCA, CHR 0xEA), (CHR 0xCB, CHR 0xEB),
      (CHR 0xCC, CHR 0xEC), (CHR 0xCD, CHR 0xED), (CHR 0xCE, CHR 0xEE), (CHR 0xCF, CHR 0xEF),
      (CHR 0xD0, CHR 0xF0), (CHR 0xD1, CHR 0xF1), (CHR 0xD2, CHR 0xF2), (CHR 0xD3, CHR 0xF3),
      (CHR 0xD4, CHR 0xF4), (CHR 0xD5, CHR 0xF5), (CHR 0xD6, CHR 0xF6),
      (CHR 0xD8, CHR 0xF8), (CHR 0xD9, CHR 0xF9), (CHR 0xDA, CHR 0xFA), (CHR 0xDB, CHR 0xFB),
      (CHR 0xDC, CHR 0xFC), (CHR 0xDD, CHR 0xFD), (CHR 0xDE, CHR 0xFE)]"

definition toLowerCase :: "string \<Rightarrow> string" where
  "toLowerCase s = map (\<lambda>c. case map_of upperToLower c of Some l \<Rightarrow> l | None \<Rightarrow> c) s"

text \<open>
  \<^verbatim>\<open>.normalize("NFD")\<close>. The canonical decomposition of a Latin-1 character is the
  character itself, or a base letter followed by one combining mark of the block U+0300 to
  U+036F (grave 300, acute 301, circumflex 302, tilde 303, diaeresis 308, ring 30A,
  cedilla 327). The marks lie outside Latin-1, so the decomposed string is a list of code
  units of two kinds.
\<close>

datatype codeUnit = Latin1 char | Combining nat

definition canonicalDecomposition :: "(char \<times> char \<times> nat) list" where
  "canonicalDecomposition =
    [(CHR 0xC0, CHR ''A'', 0x300), (CHR 0xC1, CHR ''A'', 0x301), (CHR 0xC2, CHR ''A'', 0x302),
     (CHR 0xC3, CHR ''A'', 0x303), (CHR 0xC4, CHR ''A'', 0x308), (CHR 0xC5, CHR ''A'', 0x30A),
     (CHR 0xC7, CHR ''C'', 0x327),
     (CHR 0xC8, CHR ''E'', 0x300), (CHR 0xC9, CHR ''E'', 0x301), (CHR 0xCA, CHR ''E'', 0x302),
     (CHR 0xCB, CHR ''E'', 0x308),
     (CHR 0xCC, CHR ''I'', 0x300), (CHR 0xCD, CHR ''I'', 0x301), (CHR 0xCE, CHR ''I'', 0x302),
     (CHR 0xCF, CHR ''I'', 0x308),
     (CHR 0xD1, CHR ''N'', 0x303),
     (CHR 0xD2, CHR ''O'', 0x300), (CHR 0xD3, CHR ''O'', 0x301), (CHR 0xD4, CHR ''O'', 0x302),
     (CHR 0xD5, CHR ''O'', 0x303), (CHR 0xD6, CHR ''O'', 0x308),
     (CHR 0xD9, CHR ''U'', 0x300), (CHR 0xDA, CHR ''U'', 0x301), (CHR 0xDB, CHR ''U'', 0x302),
     (CHR 0xDC, CHR ''U'', 0x308),
     (CHR 0xDD, CHR ''Y'', 0x301),
     (CHR 0xE0, CHR ''a'', 0x300), (CHR 0xE1, CHR ''a'', 0x301), (CHR 0xE2, CHR ''a'', 0x302),
     (CHR 0xE3, CHR ''a'', 0x303), (CHR 0xE4, CHR ''a'', 0x308), (CHR 0xE5, CHR ''a'', 0x30A),
     (CHR 0xE7, CHR ''c'', 0x327),
     (CHR 0xE8, CHR ''e'', 0x300), (CHR 0xE9, CHR ''e'', 0x301), (CHR 0xEA, CHR ''e'', 0x302),
     (CHR 0xEB, CHR ''e'', 0x308),
     (CHR 0xEC, CHR ''i'', 0x300), (CHR 0xED, CHR ''i'', 0x301), (CHR 0xEE, CHR ''i'', 0x302),
     (CHR 0xEF, CHR ''i'', 0x308),
     (CHR 0xF1, CHR ''n'', 0x303),
     (CHR 0xF2, CHR ''o'', 0x300), (CHR 0xF3, CHR ''o'', 0x301), (CHR 0xF4, CHR ''o'', 0x302),
     (CHR 0xF5, CHR ''o'', 0x303), (CHR 0xF6, CHR ''o'', 0x308),
     (CHR 0xF9, CHR ''u'', 0x300), (CHR 0xFA, CHR ''u'', 0x301), (CHR 0xFB, CHR ''u'', 0x302),
     (CHR 0xFC, CHR ''u'', 0x308),
     (CHR 0xFD, CHR ''y'', 0x301), (CHR 0xFF, CHR ''y'', 0x308)]"

definition normalizeNFD :: "string \<Rightarrow> codeUnit list" where
  "normalizeNFD s =
     concat (map (\<lambda>c. case map_of canonicalDecomposition c of
                          Some (b, m) \<Rightarrow> [Latin1 b, Combining m]
                        | None \<Rightarrow> [Latin1 c]) s)"

text \<open>
  \<^verbatim>\<open>.replace(/[\u0300-\u036f]/g, "")\<close> removes the combining marks;
  \<^verbatim>\<open>.replace(/[^a-z0-9]/g, " ")\<close> turns every other code unit that is not a lower-case
  ASCII letter or a digit into a space.
\<close>

fun isCombiningMark :: "codeUnit \<Rightarrow> bool" where
  "isCombiningMark (Latin1 c) = False"
| "isCombiningMark (Combining n) = (0x300 \<le> n \<and> n \<le> 0x36F)"

definition removeCombiningMarks :: "codeUnit list \<Rightarrow> codeUnit list" where
  "removeCombiningMarks s = filter (\<lambda>u. \<not> isCombiningMark u) s"

definition alnum :: string where
  "alnum = ''abcdefghijklmnopqrstuvwxyz0123456789''"

fun replaceNonAlnumUnit :: "codeUnit \<Rightarrow> char" where
  "replaceNonAlnumUnit (Latin1 c) = (if c \<in> set alnum then c else CHR '' '')"
| "replaceNonAlnumUnit (Combining n) = CHR '' ''"

definition replaceNonAlnum :: "codeUnit list \<Rightarrow> string" where
  "replaceNonAlnum s = map replaceNonAlnumUnit s"

text \<open>
  \<^verbatim>\<open>.replace(/\s+/g, " ")\<close> replaces each maximal run of white space by one space and
  \<^verbatim>\<open>.trim()\<close> strips white space at both ends. The white space of Latin-1, for the
  regular expression class and for \<^verbatim>\<open>trim\<close> alike, is TAB, LF, VT, FF, CR, SPACE and
  the no-break space U+00A0.
\<close>

definition isWhiteSpace :: "char \<Rightarrow> bool" where
  "isWhiteSpace c = (c \<in> set [CHR 0x09, CHR 0x0A, CHR 0x0B, CHR 0x0C, CHR 0x0D, CHR '' '', CHR 0xA0])"

function collapseWhiteSpace :: "string \<Rightarrow> string" where
  "collapseWhiteSpace [] = []"
| "collapseWhiteSpace (c # cs) =
     (if isWhiteSpace c then CHR '' '' # collapseWhiteSpace (dropWhile isWhiteSpace cs)
      else c # collapseWhiteSpace cs)"
  by pat_completeness auto
termination
  by (relation "measure length") (auto simp: le_imp_less_Suc length_dropWhile_le)

definition trim :: "string \<Rightarrow> string" where
  "trim s = rev (dropWhile isWhiteSpace (rev (dropWhile isWhiteSpace s)))"

definition normalizeText :: "string \<Rightarrow> string" where
  "normalizeText text =
     trim (collapseWhiteSpace (replaceNonAlnum (removeCombiningMarks
       (normalizeNFD (toLowerCase text)))))"

text \<open>
  Two predicates used in the proofs about \<open>normalizeText\<close>: a string of lower-case
  letters, digits and spaces, and a string whose white space is made of single spaces.
\<close>

definition alnumSp :: "string \<Rightarrow> bool" where
  "alnumSp s = (\<forall>c \<in> set s. c \<in> set alnum \<or> c = CHR '' '')"

fun collapsed :: "string \<Rightarrow> bool" where
  "collapsed [] = True"
| "collapsed [c] = (isWhiteSpace c \<longrightarrow> c = CHR '' '')"
| "collapsed (c # d # r) =
     ((isWhiteSpace c \<longrightarrow> c = CHR '' '' \<and> \<not> isWhiteSpace d) \<and> collapsed (d # r))"

subsection \<open>Edit distance (\<^verbatim>\<open>levenshtein\<close>)\<close>

text \<open>
  App.tsx fills a matrix with one row per character of \<open>b\<close> and one column per character
  of \<open>a\<close>: \<^verbatim>\<open>matrix[i] = [i]\<close>, \<^verbatim>\<open>matrix[0][j] = j\<close>, and the nested loops
  compute row \<open>i\<close> from row \<open>i - 1\<close>. \<open>levInner\<close> is the inner loop over \<open>j\<close>: it
  walks the columns with the previous row (\<open>diag\<close> is \<^verbatim>\<open>matrix[i-1][j-1]\<close>, \<open>up\<close>
  is \<^verbatim>\<open>matrix[i-1][j]\<close>) and the cell just written (\<open>left\<close>, \<^verbatim>\<open>matrix[i][j-1]\<close>).
  \<open>levRows\<close> is the outer loop over \<open>i\<close>; the result \<^verbatim>\<open>matrix[b.length][a.length]\<close> is
  the last cell of the last row. The two early returns for an empty argument come first.
\<close>

fun levInner :: "char \<Rightarrow> string \<Rightarrow> nat list \<Rightarrow> nat \<Rightarrow> nat list" where
  "levInner bc (ac # as) (diag # up # prev) left =
     (let v = (if bc = ac then diag else min (diag + 1) (min (left + 1) (up + 1)))
      in v # levInner bc as (up # prev) v)"
| "levInner bc as prev left = []"

fun levRows :: "string \<Rightarrow> string \<Rightarrow> nat \<Rightarrow> nat list \<Rightarrow> nat list" where
  "levRows [] a i row = row"
| "levRows (bc # bs) a i row = levRows bs a (Suc i) (i # levInner bc a row i)"

definition levenshtein :: "string \<Rightarrow> string \<Rightarrow> nat" where
  "levenshtein a b =
     (if length a = 0 then length b
      else if length b = 0 then length a
      else last (levRows b a 1 [0..<Suc (length a)]))"

text \<open>
  The older source has no early return, rows for \<open>a\<close>, columns for \<open>b\<close>, and takes the
  minimum of the three neighbours in every cell.
\<close>

fun levInner_strict :: "char \<Rightarrow> string \<Rightarrow> nat list \<Rightarrow> nat \<Rightarrow> nat list" where
  "levInner_strict ac (bc # bs) (diag # up # prev) left =
     (let v = min (up + 1) (min (left + 1) (diag + (if ac = bc then 0 else 1)))
      in v # levInner_strict ac bs (up # prev) v)"
| "levInner_strict ac bs prev left = []"

fun levRows_strict :: "string \<Rightarrow> string \<Rightarrow> nat \<Rightarrow> nat list \<Rightarrow> nat list" where
  "levRows_strict [] b i row = row"
| "levRows_strict (ac # as) b i row =
     levRows_strict as b (Suc i) (i # levInner_strict ac b row i)"

definition levenshtein_strict :: "string \<Rightarrow> string \<Rightarrow> nat" where
  "levenshtein_strict a b = last (levRows_strict a b 1 [0..<Suc (length b)])"

text \<open>
  The value of a single matrix cell as a recursive function of its indices; the proofs
  show that the loops compute these cells.
\<close>

fun cell :: "string \<Rightarrow> string \<Rightarrow> nat \<Rightarrow> nat \<Rightarrow> nat" where
  "cell a b 0 j = j"
| "cell a b (Suc i) 0 = Suc i"
| "cell a b (Suc i) (Suc j) =
     (if b ! i = a ! j then cell a b i j
      else min (cell a b i j + 1) (min (cell a b (Suc i) j + 1) (cell a b i (Suc j) + 1)))"

fun cell_strict :: "string \<Rightarrow> string \<Rightarrow> nat \<Rightarrow> nat \<Rightarrow> nat" where
  "cell_strict a b 0 j = j"
| "cell_strict a b (Suc i) 0 = Suc i"
| "cell_strict a b (Suc i) (Suc j) =
     min (cell_strict a b i (Suc j) + 1)
       (min (cell_strict a b (Suc i) j + 1)
            (cell_strict a b i j + (if a ! i = b ! j then 0 else 1)))"

subsection \<open>Static tables\<close>

text \<open>
  The thesaurus object literal as an association list (its keys are distinct), the two
  \<^verbatim>\<open>Set\<close>s as lists. Characters outside ASCII are written by code point: U+00E7 is c
  with cedilla, U+00E2 a with circumflex, U+00E9 e with acute.
\<close>

definition medicalThesaurus :: "(string \<times> string list) list" where
  "medicalThesaurus =
    [(''afastador'', [''afastador'', ''afast'', ''retractor'', ''afast.'']),
     (''pinca'', [''pinca'', ''pin'' @ [CHR 0xE7] @ ''a'', ''forceps'', ''clamp'', ''pinca.'',
                  ''pin'' @ [CHR 0xE7] @ ''a.'']),
     (''tesoura'', [''tesoura'', ''tes'', ''scissors'', ''tes.'']),
     (''porta'', [''porta'', ''needle'', ''holder'', ''porta-agulha'']),
     (''cabo'', [''cabo'', ''handle'']),
     (''fio'', [''fio'', ''suture'', ''wire'']),
     (''volkmann'', [''volkmann'', ''volkman'', ''wulkman'', ''vulkman'', ''vulkmann'',
                     ''wolkman'', ''wolkmann'']),
     (''kocher'', [''kocher'', ''kocker'', ''cocher'', ''cocker'', ''kocher.'']),
     (''senn'', [''senn'', ''sen'', ''semm'', ''sem'']),
     (''mueller'', [''mueller'', ''muller'', ''mulir'', ''muler'']),
     (''metzenbaum'', [''metzenbaum'', ''metz'', ''metzebaum'']),
     (''mayo'', [''mayo'', ''maio'']),
     (''kelly'', [''kelly'', ''kely'', ''keli'']),
     (''clipe'', [''clipe'', ''clips'', ''clip'']),
     (''gancho'', [''gancho'', ''ganchos'', ''garra'', ''garras'', ''dente'', ''dentes'']),
     (''mosquito'', [''mosquito'', ''halstead'', ''halsted'']),
     (''bisturi'', [''bisturi'', ''scalpel'', ''l'' @ [CHR 0xE2] @ ''mina'', ''lamina'']),
     (''adson'', [''adson'', ''adsson'']),
     (''allis'', [''allis'', ''alis'']),
     (''babcock'', [''babcock'', ''babcok'']),
     (''backhaus'', [''backhaus'', ''backaus'']),
     (''gelpi'', [''gelpi'', ''gelpy'', ''golpi'']),
     (''weitlaner'', [''weitlaner'', ''weitlaner'', ''westphal'']),
     (''mixter'', [''mixter'', ''mixture'']),
     (''crile'', [''crile'', ''crille'']),
     (''rochester'', [''rochester'']),
     (''pean'', [''pean'']),
     (''guthrie'', [''guthrie'', ''gunthrie'', ''gutrie'']),
     (''cizalha'', [''cizalha'', ''cisalha'', ''alicate'']),
     (''liston'', [''liston'', ''listom'']),
     (''farabeuf'', [''farabeuf'', ''farabef'', ''farabauf'']),
     (''yankauer'', [''yankauer'', ''yankau'', ''yancauer'']),
     (''hartmann'', [''hartmann'', ''hartman'']),
     (''bunt'', [''bunt'', ''bunti'']),
     (''hegar'', [''hegar'', ''hegger''])]"

definition STOP_WORDS :: "string list" where
  "STOP_WORDS =
    [''de'', ''do'', ''da'', ''com'', ''para'', ''em'', ''cm'', ''mm'', ''ml'', ''unid'', ''cx'',
     ''pc'', ''p'' @ [CHR 0xE7], ''jogo'', ''kit'', ''conjunto'']"

definition CATEGORY_TERMS :: "string list" where
  "CATEGORY_TERMS =
    [''afastador'', ''pinca'', ''pin'' @ [CHR 0xE7] @ ''a'', ''tesoura'', ''porta'', ''cabo'',
     ''fio'', ''lamina'', ''l'' @ [CHR 0xE2] @ ''mina'',
     ''bisturi'', ''agulha'', ''clip'', ''clipe'', ''clips'', ''broca'', ''raspador'',
     ''elevador'', ''descolador'',
     ''valva'', ''especulo'', ''esp'' @ [CHR 0xE9] @ ''culo'', ''aspirador'', ''canula'',
     ''c'' @ [CHR 0xE2] @ ''nula'', ''cesta'', ''caixa'',
     ''cizalha'', ''gancho'', ''garra'', ''dente'', ''sonda'', ''cateter'', ''drill'',
     ''perfurador'']"

text \<open>
  The thesaurus of the older source; it has no stop-word and no category table.
\<close>

definition medicalThesaurus_strict :: "(string \<times> string list) list" where
  "medicalThesaurus_strict =
    [(''afastador'', [''afastador'', ''afast'', ''retractor'']),
     (''pinca'', [''pinca'', ''pin'' @ [CHR 0xE7] @ ''a'', ''forceps'', ''clamp'']),
     (''tesoura'', [''tesoura'', ''tes'', ''scissors'']),
     (''porta'', [''porta'', ''needle'', ''holder'']),
     (''cabo'', [''cabo'', ''handle'']),
     (''volkmann'', [''volkmann'', ''volkman'', ''wulkman'', ''vulkman'', ''vulkmann'']),
     (''senn'', [''senn'', ''sen'', ''semm'', ''sem'']),
     (''mueller'', [''mueller'', ''muller'', ''mulir'', ''muler'']),
     (''metzenbaum'', [''metzenbaum'', ''metz'', ''metzebaum'']),
     (''mayo'', [''mayo'', ''maio'']),
     (''kelly'', [''kelly'', ''kely'']),
     (''clipe'', [''clipe'', ''clips'', ''clip'']),
     (''clips'', [''clips'', ''clipe'', ''clip''])]"

text \<open>
  \<^verbatim>\<open>medicalThesaurus[token] || [token]\<close>. The thesaurus is a plain object, so a token
  that is no key of its own is looked up on \<^verbatim>\<open>Object.prototype\<close>. Tokens are made of
  a-z and 0-9, and the only such name there is \<^verbatim>\<open>constructor\<close>: for it the lookup
  yields a function, not an array, and the method call that follows in every use
  (\<^verbatim>\<open>synonyms.some\<close>, \<^verbatim>\<open>anchorSynonyms.includes\<close>) throws a TypeError. Each use below
  is followed by such a call (the list of title tokens is never empty), so the exception
  is modelled at the lookup.
\<close>

datatype error = TypeError | ApiError | SyntaxError

definition synonyms :: "(string \<times> string list) list \<Rightarrow> string \<Rightarrow> error + string list" where
  "synonyms thesaurus token =
     (case map_of thesaurus token of
        Some syns \<Rightarrow> Inr syns
      | None \<Rightarrow> if token = ''constructor'' then Inl TypeError else Inr [token])"

text \<open>
  Sequencing with exceptions: \<open>bindE\<close> passes a value on or stops at the exception;
  \<open>everyE\<close> is \<^verbatim>\<open>Array.prototype.every\<close> (it stops at the first \<open>false\<close>),
  \<open>mapE\<close> is \<^verbatim>\<open>map\<close> and \<open>foldE\<close> a \<^verbatim>\<open>forEach\<close> that updates an accumulator.
\<close>

definition bindE :: "error + 'a \<Rightarrow> ('a \<Rightarrow> error + 'b) \<Rightarrow> error + 'b" where
  "bindE r f = (case r of Inl e \<Rightarrow> Inl e | Inr v \<Rightarrow> f v)"

fun everyE :: "('a \<Rightarrow> error + bool) \<Rightarrow> 'a list \<Rightarrow> error + bool" where
  "everyE f [] = Inr True"
| "everyE f (x # xs) =
     (case f x of Inl e \<Rightarrow> Inl e | Inr ok \<Rightarrow> if ok then everyE f xs else Inr False)"

fun mapE :: "('a \<Rightarrow> error + 'b) \<Rightarrow> 'a list \<Rightarrow> error + 'b list" where
  "mapE f [] = Inr []"
| "mapE f (x # xs) =
     (case f x of
        Inl e \<Rightarrow> Inl e
      | Inr y \<Rightarrow> (case mapE f xs of Inl e \<Rightarrow> Inl e | Inr ys \<Rightarrow> Inr (y # ys)))"

fun foldE :: "('s \<Rightarrow> 'a \<Rightarrow> error + 's) \<Rightarrow> 's \<Rightarrow> 'a list \<Rightarrow> error + 's" where
  "foldE f s [] = Inr s"
| "foldE f s (x # xs) = (case f s x of Inl e \<Rightarrow> Inl e | Inr s' \<Rightarrow> foldE f s' xs)"

subsection \<open>String helpers\<close>

text \<open>
  \<^verbatim>\<open>s.split(" ")\<close> (the empty string gives one empty piece), \<^verbatim>\<open>s.startsWith(p)\<close>,
  \<^verbatim>\<open>s.includes(p)\<close> and \<^verbatim>\<open>xs.findIndex(P)\<close> (-1 when no element satisfies \<open>P\<close>).
\<close>

fun split :: "string \<Rightarrow> string list" where
  "split [] = [[]]"
| "split (c # s) =
     (if c = CHR '' '' then [] # split s
      else (case split s of [] \<Rightarrow> [[c]] | t # ts \<Rightarrow> (c # t) # ts))"

definition startsWith :: "string \<Rightarrow> string \<Rightarrow> bool" where
  "startsWith s p = (take (length p) s = p)"

fun includesStr :: "string \<Rightarrow> string \<Rightarrow> bool" where
  "includesStr [] p = (p = [])"
| "includesStr (c # s) p = (startsWith (c # s) p \<or> includesStr s p)"

fun findIndex :: "('a \<Rightarrow> bool) \<Rightarrow> 'a list \<Rightarrow> int" where
  "findIndex P [] = - 1"
| "findIndex P (x # xs) =
     (if P x then 0 else (let i = findIndex P xs in if i < 0 then - 1 else i + 1))"

text \<open>
  \<^verbatim>\<open>!isNaN(Number(t))\<close> for a string \<open>t\<close> of ASCII letters and digits, which every
  token is: \<^verbatim>\<open>Number\<close> accepts the empty string, \<^verbatim>\<open>Infinity\<close>, decimal digits with an
  optional exponent of digits (no sign and no point can occur in a token), and the
  prefixed literals \<^verbatim>\<open>0x\<close>, \<^verbatim>\<open>0b\<close>, \<^verbatim>\<open>0o\<close> with at least one digit of the radix.
\<close>

definition isDigit :: "char \<Rightarrow> bool" where
  "isDigit c = (c \<in> set ''0123456789'')"

definition radixLiteral :: "string \<Rightarrow> string \<Rightarrow> string \<Rightarrow> bool" where
  "radixLiteral markers ds t =
     (case t of
        z # m # r \<Rightarrow> z = CHR ''0'' \<and> m \<in> set markers \<and> r \<noteq> [] \<and> list_all (\<lambda>c. c \<in> set ds) r
      | _ \<Rightarrow> False)"

definition decimalLiteral :: "string \<Rightarrow> bool" where
  "decimalLiteral t =
     (let m = takeWhile isDigit t; r = dropWhile isDigit t
      in m \<noteq> [] \<and>
         (case r of
            [] \<Rightarrow> True
          | e # x \<Rightarrow> e \<in> set ''eE'' \<and> x \<noteq> [] \<and> list_all isDigit x))"

definition isNumeric :: "string \<Rightarrow> bool" where
  "isNumeric t =
     (t = [] \<or> t = ''Infinity'' \<or> decimalLiteral t \<or> radixLiteral ''xX'' ''0123456789abcdefABCDEF'' t \<or>
      radixLiteral ''bB'' ''01'' t \<or> radixLiteral ''oO'' ''01234567'' t)"

subsection \<open>Relevance score of App.tsx (\<^verbatim>\<open>calculateMatchScore\<close>)\<close>

text \<open>
  The fields of \<^verbatim>\<open>MappedProduct\<close> that the engine reads (\<open>idP\<close> is the field
  \<^verbatim>\<open>id\<close>); image, category, description, brand and the raw columns are never read by
  it. \<open>price\<close> is \<^verbatim>\<open>number | null\<close>, \<open>matchScore\<close> is optional.
\<close>

record MappedProduct =
  idP :: string
  title :: string
  code :: string
  price :: "rat option"
  supplier :: string
  matchScore :: "rat option"

text \<open>
  The function follows the source step by step: the tokens of the query (empty pieces
  filtered out) and of the title (not filtered); the completeness check over all query
  tokens; the weighted token loop, where \<open>matchStep\<close> is one pass of the inner
  \<^verbatim>\<open>for\<close> loop with its two \<^verbatim>\<open>continue\<close> statements; the anchor bonus and the
  accessory penalty. The counter \<^verbatim>\<open>exactTokenMatches\<close> is never read and is left out.
\<close>

definition queryTokensOf :: "string \<Rightarrow> string list" where
  "queryTokensOf query = filter (\<lambda>t. length t > 0) (split (normalizeText query))"

definition allImportantTokensPresent :: "string list \<Rightarrow> string \<Rightarrow> error + bool" where
  "allImportantTokensPresent queryTokens normalizedTitle =
     everyE (\<lambda>qToken.
        if qToken \<in> set STOP_WORDS then Inr True
        else if length qToken < 3 \<and> isNumeric qToken then Inr True
        else bindE (synonyms medicalThesaurus qToken)
               (\<lambda>syns. Inr (list_ex (\<lambda>syn. includesStr normalizedTitle syn) syns)))
       queryTokens"

definition tokenWeight :: "string \<Rightarrow> rat" where
  "tokenWeight qToken =
     (if qToken \<in> set STOP_WORDS then 50
      else if qToken \<in> set CATEGORY_TERMS then 2500
      else if isNumeric qToken then 500
      else 4500)"

definition matchStep :: "string \<Rightarrow> rat \<Rightarrow> string list \<Rightarrow> rat \<Rightarrow> string \<Rightarrow> rat" where
  "matchStep qToken weight syns bestTokenScore pToken =
     (if list_ex (\<lambda>s. s = pToken) syns then max bestTokenScore 1
      else if weight > 1000 \<and> length qToken > 3 \<and> startsWith pToken qToken
        then max bestTokenScore (9 / 10)
      else if weight > 100 \<and> length qToken > 3 then
        (let dist = levenshtein qToken pToken;
             threshold = (if length qToken > 6 then 2 else 1)
         in if dist \<le> threshold then max bestTokenScore (1 - of_nat dist * (2 / 10))
            else bestTokenScore)
      else bestTokenScore)"

definition tokenScore :: "string list \<Rightarrow> rat \<Rightarrow> string \<Rightarrow> error + rat" where
  "tokenScore productTokens totalScore qToken =
     (let weight = tokenWeight qToken
      in bindE (synonyms medicalThesaurus qToken) (\<lambda>syns.
           let bestTokenScore = foldl (matchStep qToken weight syns) 0 productTokens
           in Inr (if bestTokenScore > 0 then totalScore + bestTokenScore * weight
                   else totalScore)))"

definition calculateMatchScore :: "MappedProduct \<Rightarrow> string \<Rightarrow> error + rat" where
  "calculateMatchScore product query =
     (let normalizedTitle = normalizeText (title product);
          queryTokens = queryTokensOf query;
          productTokens = split normalizedTitle
      in case queryTokens of
           [] \<Rightarrow> Inr 0
         | anchorToken # _ \<Rightarrow>
             bindE (allImportantTokensPresent queryTokens normalizedTitle) (\<lambda>allPresent.
             bindE (foldE (tokenScore productTokens) (if allPresent then 6000 else 0) queryTokens)
               (\<lambda>weighted.
             bindE (synonyms medicalThesaurus anchorToken) (\<lambda>anchorSynonyms.
               let anchorIndex = findIndex (\<lambda>p. p \<in> set anchorSynonyms) productTokens;
                   anchored =
                     (if anchorIndex = 0 then weighted + 2000
                      else if anchorIndex > 0 then weighted + 1000
                      else weighted);
                   isCaboQuery = (''cabo'' \<in> set anchorSynonyms \<or> ''suporte'' \<in> set anchorSynonyms);
                   productIsAccessory =
                     (''cabo'' \<in> set productTokens \<or> ''suporte'' \<in> set productTokens)
               in Inr (if productIsAccessory \<and> \<not> isCaboQuery then anchored - 3000
                       else anchored)))))"

subsection \<open>Relevance score of the older source\<close>

text \<open>
  \<^verbatim>\<open>calculateMatchScore\<close> of \<^verbatim>\<open>src/unnamed/part_001\<close>: the check that all tokens are
  contained (bonus 5000), the anchor test on the first title word (equal to or starting
  with a synonym, bonus 5000) or on any title word (bonus 1000), the early
  \<^verbatim>\<open>return -1\<close> for a query of several tokens without anchor, the accessory penalty
  of 4000, and the token loop, in which a synonym match assigns 2000 and a near match
  takes the maximum with 1000 - 200 * distance. The penalty is subtracted before the token
  loop adds to the score, as in the source; the additions commute.
\<close>

definition containsAllTokens :: "string list \<Rightarrow> string \<Rightarrow> error + bool" where
  "containsAllTokens queryTokens productTitle =
     everyE (\<lambda>token.
        bindE (synonyms medicalThesaurus_strict token)
          (\<lambda>syns. Inr (list_ex (\<lambda>syn. includesStr productTitle syn) syns)))
       queryTokens"

definition productStartsWithAnchor :: "string list \<Rightarrow> string list \<Rightarrow> bool" where
  "productStartsWithAnchor anchorSynonyms productWords =
     (case productWords of
        [] \<Rightarrow> False
      | first # _ \<Rightarrow> list_ex (\<lambda>syn. first = syn \<or> startsWith first syn) anchorSynonyms)"

definition productContainsAnchor :: "string list \<Rightarrow> string list \<Rightarrow> bool" where
  "productContainsAnchor anchorSynonyms productWords =
     list_ex (\<lambda>syn. syn \<in> set productWords) anchorSynonyms"

definition accessoryKeywords :: "string list" where
  "accessoryKeywords = [''cabo'', ''capa'', ''suporte'', ''p/'', ''para'']"

definition wordStep :: "string \<Rightarrow> string list \<Rightarrow> rat \<Rightarrow> string \<Rightarrow> rat" where
  "wordStep token syns bestMatch word =
     (if list_ex (\<lambda>s. word = s) syns then 2000
      else
        (let dist = levenshtein_strict token word;
             threshold = (if length token > 5 then 2 else 1)
         in if dist \<le> threshold then max bestMatch (1000 - of_nat dist * 200)
            else bestMatch))"

definition tokenScore_strict :: "string list \<Rightarrow> rat \<Rightarrow> string \<Rightarrow> error + rat" where
  "tokenScore_strict productWords score token =
     bindE (synonyms medicalThesaurus_strict token)
       (\<lambda>syns. Inr (score + foldl (wordStep token syns) 0 productWords))"

definition calculateMatchScore_strict :: "MappedProduct \<Rightarrow> string \<Rightarrow> error + rat" where
  "calculateMatchScore_strict product query =
     (let queryTokens = queryTokensOf query
      in case queryTokens of
           [] \<Rightarrow> Inr 0
         | anchorToken # _ \<Rightarrow>
             (let productTitle = normalizeText (title product);
                  productWords = split productTitle
              in bindE (containsAllTokens queryTokens productTitle) (\<lambda>containsAll.
                 bindE (synonyms medicalThesaurus_strict anchorToken) (\<lambda>anchorSynonyms.
                   let score0 = (if containsAll then 5000 else 0);
                       isCaboSearch = (''cabo'' \<in> set anchorSynonyms);
                       isProductAccessory = list_ex (\<lambda>w. w \<in> set accessoryKeywords) productWords;
                       penalty = (if isProductAccessory \<and> \<not> isCaboSearch then 4000 else 0)
                   in if productStartsWithAnchor anchorSynonyms productWords
                        then foldE (tokenScore_strict productWords) (score0 + 5000 - penalty)
                               queryTokens
                      else if productContainsAnchor anchorSynonyms productWords
                        then foldE (tokenScore_strict productWords) (score0 + 1000 - penalty)
                               queryTokens
                      else if length queryTokens > 1 then Inr (- 1)
                      else foldE (tokenScore_strict productWords) (score0 - penalty)
                             queryTokens))))"

text \<open>
  Used to state that a score is none of the values the rejection returns.
\<close>

definition multipleOf200 :: "rat \<Rightarrow> bool" where
  "multipleOf200 x = (\<exists>k :: int. x = 200 * of_int k)"

subsection \<open>Ranking of one term\<close>

text \<open>
  The chain in \<^verbatim>\<open>handleSearch\<close>: \<^verbatim>\<open>allProducts.map\<close> attaches the score,
  \<^verbatim>\<open>filter\<close> keeps \<^verbatim>\<open>(p.matchScore || 0) > 0\<close>, \<^verbatim>\<open>sort\<close> orders by the
  comparator \<^verbatim>\<open>(b.matchScore || 0) - (a.matchScore || 0)\<close>, \<^verbatim>\<open>slice(0, 15)\<close>
  truncates. \<^verbatim>\<open>Array.prototype.sort\<close> is stable (ECMAScript 2019) and the comparator is
  a consistent order, so the sort is the stable insertion sort \<open>sort_key\<close> on the
  negated score.
\<close>

definition scoreOr0 :: "MappedProduct \<Rightarrow> rat" where
  "scoreOr0 p = (case matchScore p of None \<Rightarrow> 0 | Some s \<Rightarrow> s)"

definition scoreAll ::
  "(MappedProduct \<Rightarrow> string \<Rightarrow> error + rat) \<Rightarrow> MappedProduct list \<Rightarrow> string
   \<Rightarrow> error + MappedProduct list" where
  "scoreAll score ps itemName =
     mapE (\<lambda>p. bindE (score p itemName) (\<lambda>s. Inr (p\<lparr>matchScore := Some s\<rparr>))) ps"

definition rankWith ::
  "(MappedProduct \<Rightarrow> string \<Rightarrow> error + rat) \<Rightarrow> MappedProduct list \<Rightarrow> string
   \<Rightarrow> error + MappedProduct list" where
  "rankWith score ps itemName =
     bindE (scoreAll score ps itemName)
       (\<lambda>scored. Inr (take 15 (sort_key (\<lambda>p. - scoreOr0 p)
                                 (filter (\<lambda>p. scoreOr0 p > 0) scored))))"

definition rank :: "MappedProduct list \<Rightarrow> string \<Rightarrow> error + MappedProduct list" where
  "rank = rankWith calculateMatchScore"

definition rank_strict :: "MappedProduct list \<Rightarrow> string \<Rightarrow> error + MappedProduct list" where
  "rank_strict = rankWith calculateMatchScore_strict"

text \<open>
  The score as a number, for statements that compare scores (0 where the call throws).
\<close>

definition scoreOf :: "MappedProduct \<Rightarrow> string \<Rightarrow> rat" where
  "scoreOf p q = (case calculateMatchScore p q of Inl e \<Rightarrow> 0 | Inr v \<Rightarrow> v)"

subsection \<open>Item extraction and its fallback (\<^verbatim>\<open>extractShoppingItems\<close>)\<close>

text \<open>
  The call to the external language model is represented by its outcome: the call throws
  or rejects, the response has no text (or an empty one), the text is not valid JSON, or
  the text parses to a list of items (a text that parses to anything else is outside the
  model; the response schema asks for an array of name and quantity). \<open>tryExtract\<close> is the body of the \<^verbatim>\<open>try\<close> block,
  \<open>extractShoppingItems\<close> adds the \<^verbatim>\<open>catch\<close>. \<open>splitRuns\<close> is
  \<^verbatim>\<open>text.split(/[\n,]+/)\<close>: the pieces between maximal runs of separators, with an
  empty piece before a leading and after a trailing run.
\<close>

record ExtractedItem =
  name :: string
  quantity :: rat

datatype aiOutcome = CallFails | NoText | BadJson | Items "ExtractedItem list"

function splitRuns :: "(char \<Rightarrow> bool) \<Rightarrow> string \<Rightarrow> string list" where
  "splitRuns sep [] = [[]]"
| "splitRuns sep (c # s) =
     (if sep c then [] # splitRuns sep (dropWhile sep s)
      else (case splitRuns sep s of [] \<Rightarrow> [[c]] | t # ts \<Rightarrow> (c # t) # ts))"
  by pat_completeness auto
termination
  by (relation "measure (\<lambda>(sep, s). length s)") (auto simp: le_imp_less_Suc length_dropWhile_le)

definition isSeparator :: "char \<Rightarrow> bool" where
  "isSeparator c = (c = CHR 0x0A \<or> c = CHR '','')"

definition fallbackItems :: "string \<Rightarrow> ExtractedItem list" where
  "fallbackItems text =
     filter (\<lambda>s. length (name s) > 0)
       (map (\<lambda>s. \<lparr>name = trim s, quantity = 1\<rparr>) (splitRuns isSeparator text))"

definition tryExtract :: "aiOutcome \<Rightarrow> string \<Rightarrow> error + ExtractedItem list" where
  "tryExtract outcome text =
     (case outcome of
        CallFails \<Rightarrow> Inl ApiError
      | NoText \<Rightarrow> Inr (fallbackItems text)
      | BadJson \<Rightarrow> Inl SyntaxError
      | Items items \<Rightarrow> Inr items)"

definition extractShoppingItems :: "aiOutcome \<Rightarrow> string \<Rightarrow> ExtractedItem list" where
  "extractShoppingItems outcome text =
     (case tryExtract outcome text of Inl e \<Rightarrow> fallbackItems text | Inr items \<Rightarrow> items)"

subsection \<open>Quotation state, effective selection and totals\<close>

text \<open>
  \<open>termR\<close> is the field \<^verbatim>\<open>term\<close>. \<^verbatim>\<open>QuotationMap\<close> maps a line index to a record
  from product id to quantity; the inner record is the list of its entries in key order, so
  that \<^verbatim>\<open>Object.keys(...)[0]\<close> is the first entry. The component state holds the catalog,
  the line results, the selection state and the supplier filter.
\<close>

record BulkSearchResult =
  termR :: string
  originalTerm :: string
  products :: "MappedProduct list"
  detectedQuantity :: rat

type_synonym QuotationMap = "nat \<Rightarrow> (string \<times> rat) list option"

record AppState =
  allProducts :: "MappedProduct list"
  bulkResults :: "BulkSearchResult list"
  quotationState :: QuotationMap
  selectedSupplierFilter :: string

definition allSuppliers :: string where
  "allSuppliers = ''Todos os fornecedores''"

definition initialState :: AppState where
  "initialState =
     \<lparr>allProducts = [], bulkResults = [], quotationState = Map.empty,
      selectedSupplierFilter = allSuppliers\<rparr>"

text \<open>
  \<^verbatim>\<open>handleSearch\<close>. It returns at once on a blank input. Otherwise it resets the
  selection state, takes the extracted items, and maps over them in order: it ranks the
  term, records the first candidate with the term's quantity when there is one, and builds
  the line. \<open>searchItems\<close> is that map with the selection state threaded through. If the
  ranking of a term throws, the \<^verbatim>\<open>catch\<close> logs the error: the line results keep their
  old value and the selection state holds the entries recorded so far. The flag
  \<^verbatim>\<open>isSearching\<close> and the rows expanded in the table play no part in the results.
\<close>

fun searchItems ::
  "MappedProduct list \<Rightarrow> nat \<Rightarrow> ExtractedItem list \<Rightarrow> QuotationMap
   \<Rightarrow> (error + BulkSearchResult list) \<times> QuotationMap" where
  "searchItems ps index [] q = (Inr [], q)"
| "searchItems ps index (item # items) q =
     (case rank ps (name item) of
        Inl e \<Rightarrow> (Inl e, q)
      | Inr matches \<Rightarrow>
          (let q' = (case matches of
                       [] \<Rightarrow> q
                     | m # _ \<Rightarrow> q(index \<mapsto> [(idP m, quantity item)]));
               result = \<lparr>termR = name item, originalTerm = name item, products = matches,
                         detectedQuantity = quantity item\<rparr>
           in case searchItems ps (Suc index) items q' of
                (Inl e, q'') \<Rightarrow> (Inl e, q'')
              | (Inr results, q'') \<Rightarrow> (Inr (result # results), q'')))"

definition handleSearch :: "aiOutcome \<Rightarrow> string \<Rightarrow> AppState \<Rightarrow> AppState" where
  "handleSearch outcome queryInput st =
     (if trim queryInput = [] then st
      else
        (case searchItems (allProducts st) 0 (extractShoppingItems outcome queryInput) Map.empty of
           (Inl e, q) \<Rightarrow> st\<lparr>quotationState := q\<rparr>
         | (Inr results, q) \<Rightarrow> st\<lparr>bulkResults := results, quotationState := q\<rparr>))"

text \<open>
  The two handlers that override a line, the catalog load and the supplier filter.
\<close>

definition handleQuantityChange :: "nat \<Rightarrow> string \<Rightarrow> rat \<Rightarrow> AppState \<Rightarrow> AppState" where
  "handleQuantityChange termIndex productId newQty st =
     st\<lparr>quotationState := (quotationState st)(termIndex \<mapsto> [(productId, max 1 newQty)])\<rparr>"

definition onToggleSelect :: "BulkSearchResult \<Rightarrow> nat \<Rightarrow> string \<Rightarrow> AppState \<Rightarrow> AppState" where
  "onToggleSelect result tIdx pId st =
     st\<lparr>quotationState := (quotationState st)
          (tIdx \<mapsto> [(pId, if detectedQuantity result \<noteq> 0 then detectedQuantity result else 1)])\<rparr>"

definition setAllProducts :: "MappedProduct list \<Rightarrow> AppState \<Rightarrow> AppState" where
  "setAllProducts data st = (if length data > 0 then st\<lparr>allProducts := data\<rparr> else st)"

definition setSelectedSupplierFilter :: "string \<Rightarrow> AppState \<Rightarrow> AppState" where
  "setSelectedSupplierFilter s st = st\<lparr>selectedSupplierFilter := s\<rparr>"

text \<open>
  \<^verbatim>\<open>filteredResults\<close> and \<^verbatim>\<open>grandTotal\<close>. The three \<open>active\<close> functions are the
  local constants \<^verbatim>\<open>activeId\<close>, \<^verbatim>\<open>p\<close> and \<^verbatim>\<open>qty\<close>, computed the same way
  in the total, in the table and in the export. An absent id (\<^verbatim>\<open>null\<close>, or no key) and
  the empty id are both falsy and are both the empty string here; a quantity 0 is falsy.
  An active id that is no key of the line's entry reads as absent. (The source reads an
  inherited property instead when such an id is a property name of \<^verbatim>\<open>Object.prototype\<close>;
  the active id is no key of an existing entry only if that entry has the empty id as
  its key, a case that every statement below excludes.)
\<close>

definition filteredResults :: "AppState \<Rightarrow> BulkSearchResult list" where
  "filteredResults st =
     (if selectedSupplierFilter st = allSuppliers then bulkResults st
      else map (\<lambda>res. res\<lparr>products := filter (\<lambda>p. supplier p = selectedSupplierFilter st)
                                        (products res)\<rparr>)
             (bulkResults st))"

definition selectedIds :: "QuotationMap \<Rightarrow> nat \<Rightarrow> string list" where
  "selectedIds q idx = map fst (case q idx of None \<Rightarrow> [] | Some sel \<Rightarrow> sel)"

definition activeId :: "QuotationMap \<Rightarrow> nat \<Rightarrow> BulkSearchResult \<Rightarrow> string" where
  "activeId q idx result =
     (let top = (case products result of [] \<Rightarrow> [] | p # _ \<Rightarrow> idP p)
      in case selectedIds q idx of
           [] \<Rightarrow> top
         | k # _ \<Rightarrow> if k \<noteq> [] then k else top)"

definition activeProduct :: "QuotationMap \<Rightarrow> nat \<Rightarrow> BulkSearchResult \<Rightarrow> MappedProduct option" where
  "activeProduct q idx result =
     (let a = activeId q idx result
      in if a \<noteq> [] then find (\<lambda>pr. idP pr = a) (products result) else None)"

definition activeQty :: "QuotationMap \<Rightarrow> nat \<Rightarrow> BulkSearchResult \<Rightarrow> rat" where
  "activeQty q idx result =
     (let a = activeId q idx result
      in if a \<noteq> [] then
           (case q idx of
              None \<Rightarrow> detectedQuantity result
            | Some sel \<Rightarrow>
                (case map_of sel a of
                   None \<Rightarrow> detectedQuantity result
                 | Some v \<Rightarrow> if v \<noteq> 0 then v else detectedQuantity result))
         else detectedQuantity result)"

definition priceOr0 :: "MappedProduct option \<Rightarrow> rat" where
  "priceOr0 p =
     (case p of None \<Rightarrow> 0 | Some pr \<Rightarrow> (case price pr of None \<Rightarrow> 0 | Some x \<Rightarrow> x))"

definition grandTotal :: "AppState \<Rightarrow> rat" where
  "grandTotal st =
     foldl (\<lambda>total (idx, result).
              total + priceOr0 (activeProduct (quotationState st) idx result)
                      * activeQty (quotationState st) idx result)
       0 (enumerate 0 (filteredResults st))"

text \<open>
  The classification of a line: \<open>classify\<close> is the count for the toast in
  \<^verbatim>\<open>handleSearch\<close> (on the first candidate), \<open>status\<close> the column of the export (on
  the active product).
\<close>

datatype matchClass = Exact | Similar | NotFound

definition classify :: "BulkSearchResult \<Rightarrow> matchClass" where
  "classify res =
     (case products res of
        [] \<Rightarrow> NotFound
      | p # _ \<Rightarrow> if normalizeText (termR res) = normalizeText (title p) then Exact else Similar)"

definition status :: "QuotationMap \<Rightarrow> nat \<Rightarrow> BulkSearchResult \<Rightarrow> matchClass" where
  "status q idx result =
     (case activeProduct q idx result of
        None \<Rightarrow> NotFound
      | Some p \<Rightarrow> if normalizeText (termR result) = normalizeText (title p) then Exact
                  else Similar)"

text \<open>
  The states the component can reach from its initial state by its handlers. A search
  awaits the extraction between its reset of the selection state and its auto-fill, and the
  page stays in use meanwhile, so the reset and the auto-fill of one line are steps of
  their own as well, next to the search run as a whole.
\<close>

inductive reachable :: "AppState \<Rightarrow> bool" where
  init: "reachable initialState"
| load: "reachable st \<Longrightarrow> reachable (setAllProducts data st)"
| search: "reachable st \<Longrightarrow> reachable (handleSearch outcome queryInput st)"
| quantity: "reachable st \<Longrightarrow> reachable (handleQuantityChange termIndex productId newQty st)"
| toggle: "reachable st \<Longrightarrow> reachable (onToggleSelect result tIdx pId st)"
| supplierFilter: "reachable st \<Longrightarrow> reachable (setSelectedSupplierFilter s st)"
| reset: "reachable st \<Longrightarrow> reachable (st\<lparr>quotationState := Map.empty\<rparr>)"
| autofill:
    "reachable st \<Longrightarrow>
     reachable (st\<lparr>quotationState := (quotationState st)(index \<mapsto> [(idP (m :: MappedProduct), qty)])\<rparr>)"

text \<open>
  The single-selection invariant.
\<close>

definition singleSelect :: "QuotationMap \<Rightarrow> bool" where
  "singleSelect q = (\<forall>i sel. q i = Some sel \<longrightarrow> length sel = 1)"

subsection \<open>Concrete catalog items and lines\<close>

definition mayoCabo :: MappedProduct where
  "mayoCabo = \<lparr>idP = ''prod-0'', title = ''mayo cabo'', code = ''REF-0'', price = Some 10,
               supplier = ''S1'', matchScore = None\<rparr>"

definition mayoHandle :: MappedProduct where
  "mayoHandle = \<lparr>idP = ''prod-1'', title = ''mayo handle'', code = ''REF-1'',
                 price = Some (5 / 2), supplier = ''S2'', matchScore = None\<rparr>"

definition exampleCatalog :: "MappedProduct list" where
  "exampleCatalog = [mayoCabo, mayoHandle]"

definition sensorY :: MappedProduct where
  "sensorY = \<lparr>idP = ''prod-2'', title = ''sensor y'', code = ''REF-2'', price = Some 7,
              supplier = ''S1'', matchScore = None\<rparr>"

definition pincaMayo :: MappedProduct where
  "pincaMayo = \<lparr>idP = ''prod-3'', title = ''pinca mayo'', code = ''REF-3'', price = Some 30,
                supplier = ''S1'', matchScore = None\<rparr>"

definition rankedExample :: "MappedProduct list" where
  "rankedExample =
     [mayoHandle\<lparr>matchScore := Some 15000\<rparr>, mayoCabo\<lparr>matchScore := Some 12000\<rparr>]"

definition lineExample :: BulkSearchResult where
  "lineExample = \<lparr>termR = ''mayo cabo'', originalTerm = ''mayo cabo'',
                  products = rankedExample, detectedQuantity = 3\<rparr>"

definition loadedState :: AppState where
  "loadedState = setAllProducts exampleCatalog initialState"

definition twoTerms :: "ExtractedItem list" where
  "twoTerms = [\<lparr>name = ''mayo cabo'', quantity = 3\<rparr>, \<lparr>name = ''zzzz'', quantity = 2\<rparr>]"

section \<open>Properties\<close>

subsection \<open>Sequencing with exceptions\<close>

lemma bindE_Inr [simp]: "bindE (Inr v) f = f v"
  by (simp add: bindE_def)

lemma bindE_Inl [simp]: "bindE (Inl e) f = Inl e"
  by (simp add: bindE_def)

lemma everyE_all_true: "(\<And>x. x \<in> set xs \<Longrightarrow> f x = Inr True) \<Longrightarrow> everyE f xs = Inr True"
  by (induction xs) simp_all

lemma everyE_pure:
  "(\<And>x. x \<in> set xs \<Longrightarrow> f x = Inr (g x)) \<Longrightarrow> everyE f xs = Inr (list_all g xs)"
  by (induction xs) simp_all

lemma mapE_pure: "(\<And>x. x \<in> set xs \<Longrightarrow> f x = Inr (g x)) \<Longrightarrow> mapE f xs = Inr (map g xs)"
  by (induction xs) simp_all

subsection \<open>Normalization\<close>

text \<open>
  The normalized text consists of lower-case letters, digits and single spaces, without a
  space at either end; the lower-case mapping, the decomposition, the removal of marks and
  the replacement leave such a string unchanged, and so do the collapse and the trim.
\<close>

lemma lower_fixed_all: "list_all (\<lambda>c. map_of upperToLower c = None) (CHR '' '' # alnum)"
  unfolding alnum_def upperToLower_def by simp

lemma lower_fixed: "c \<in> set alnum \<or> c = CHR '' '' \<Longrightarrow> map_of upperToLower c = None"
  using lower_fixed_all unfolding list_all_iff by auto 

lemma nfd_fixed_all: "list_all (\<lambda>c. map_of canonicalDecomposition c = None) (CHR '' '' # alnum)"
  unfolding alnum_def canonicalDecomposition_def by simp

lemma nfd_fixed: "c \<in> set alnum \<or> c = CHR '' '' \<Longrightarrow> map_of canonicalDecomposition c = None"
  using nfd_fixed_all unfolding list_all_iff by auto 

lemma unicode_stage_fixed:
  "alnumSp t \<Longrightarrow>
   replaceNonAlnum (removeCombiningMarks (normalizeNFD (toLowerCase t))) = t"
proof (induction t)
  case Nil
  show ?case
    by (simp add: replaceNonAlnum_def removeCombiningMarks_def normalizeNFD_def toLowerCase_def)
next
  case (Cons c t)
  from Cons.prems have c: "c \<in> set alnum \<or> c = CHR '' ''" and t: "alnumSp t"
    by (simp_all add: alnumSp_def)
  have sp: "CHR '' '' \<notin> set alnum" by (simp add: alnum_def)
  from Cons.IH [OF t] c sp show ?case
    by (auto simp add: replaceNonAlnum_def removeCombiningMarks_def normalizeNFD_def
        toLowerCase_def lower_fixed nfd_fixed)
qed

lemma alnumSp_replaceNonAlnum: "alnumSp (replaceNonAlnum us)"
proof -
  have "replaceNonAlnumUnit u \<in> set alnum \<or> replaceNonAlnumUnit u = CHR '' ''" for u
    by (cases u) simp_all
  then show ?thesis by (auto simp add: alnumSp_def replaceNonAlnum_def)
qed

lemma set_collapseWhiteSpace: "set (collapseWhiteSpace x) \<subseteq> insert (CHR '' '') (set x)"
proof (induction x rule: collapseWhiteSpace.induct)
  case 1
  show ?case by simp
next
  case (2 c cs)
  have "set (dropWhile isWhiteSpace cs) \<subseteq> set cs" by (rule set_dropWhileD [THEN subsetI])
  with 2 show ?case by auto
qed

lemma alnumSp_collapseWhiteSpace: "alnumSp x \<Longrightarrow> alnumSp (collapseWhiteSpace x)"
  using set_collapseWhiteSpace [of x] by (auto simp add: alnumSp_def)

lemma set_trim: "set (trim x) \<subseteq> set x"
proof -
  have "set (dropWhile isWhiteSpace (rev (dropWhile isWhiteSpace x)))
        \<subseteq> set (rev (dropWhile isWhiteSpace x))"
    by (rule set_dropWhileD [THEN subsetI])
  moreover have "set (dropWhile isWhiteSpace x) \<subseteq> set x"
    by (rule set_dropWhileD [THEN subsetI])
  ultimately show ?thesis by (auto simp add: trim_def)
qed

lemma alnumSp_trim: "alnumSp x \<Longrightarrow> alnumSp (trim x)"
  using set_trim [of x] by (auto simp add: alnumSp_def)

lemma collapseWhiteSpace_no_leading:
  "x = [] \<or> \<not> isWhiteSpace (hd x) \<Longrightarrow>
   collapseWhiteSpace x = [] \<or> \<not> isWhiteSpace (hd (collapseWhiteSpace x))"
  by (cases x) auto

lemma dropWhile_no_leading: "dropWhile P x = [] \<or> \<not> P (hd (dropWhile P x))"
  by (induction x) auto

lemma collapsed_collapseWhiteSpace: "collapsed (collapseWhiteSpace x)"
proof (induction x rule: collapseWhiteSpace.induct)
  case 1
  show ?case by simp
next
  case (2 c cs)
  show ?case
  proof (cases "isWhiteSpace c")
    case True
    let ?r = "collapseWhiteSpace (dropWhile isWhiteSpace cs)"
    have nl: "?r = [] \<or> \<not> isWhiteSpace (hd ?r)"
      by (rule collapseWhiteSpace_no_leading) (rule dropWhile_no_leading)
    from 2(1) [OF True] have "collapsed ?r" .
    with nl True show ?thesis by (cases ?r) auto
  next
    case False
    from 2(2) [OF False] have "collapsed (collapseWhiteSpace cs)" .
    with False show ?thesis by (cases "collapseWhiteSpace cs") auto
  qed
qed

lemma collapsed_fixed: "collapsed y \<Longrightarrow> collapseWhiteSpace y = y"
  by (induction y rule: collapsed.induct) auto

lemma collapsed_append: "collapsed (p @ q) \<Longrightarrow> collapsed p \<and> collapsed q"
proof (induction p rule: collapsed.induct)
  case 1
  then show ?case by simp
next
  case (2 c)
  then show ?case by (cases q) auto
next
  case (3 c d r)
  then show ?case by auto
qed

lemma collapsed_trim: "collapsed y \<Longrightarrow> collapsed (trim y)"
proof -
  assume y: "collapsed y"
  let ?a = "dropWhile isWhiteSpace y"
  have "y = takeWhile isWhiteSpace y @ ?a" by simp
  with y collapsed_append [of "takeWhile isWhiteSpace y" ?a] have a: "collapsed ?a" by simp
  have "rev ?a = takeWhile isWhiteSpace (rev ?a) @ dropWhile isWhiteSpace (rev ?a)" by simp
  then have "?a = rev (dropWhile isWhiteSpace (rev ?a)) @ rev (takeWhile isWhiteSpace (rev ?a))"
    by (metis rev_append rev_rev_ident)
  with a collapsed_append [of "rev (dropWhile isWhiteSpace (rev ?a))"
      "rev (takeWhile isWhiteSpace (rev ?a))"]
  show ?thesis by (simp add: trim_def)
qed

lemma dropWhile_rev_dropWhile_rev:
  "a = [] \<or> \<not> P (hd a) \<Longrightarrow>
   dropWhile P (rev (dropWhile P (rev a))) = rev (dropWhile P (rev a))"
proof (cases a)
  case Nil
  then show ?thesis by simp
next
  case (Cons h t)
  assume "a = [] \<or> \<not> P (hd a)"
  with Cons have h: "\<not> P h" by simp
  then have "dropWhile P (rev t @ [h]) = dropWhile P (rev t) @ [h]"
    by (simp add: dropWhile_append3)
  with Cons h show ?thesis by simp
qed

lemma trim_trim: "trim (trim y) = trim y"
proof -
  let ?a = "dropWhile isWhiteSpace y"
  let ?b = "rev (dropWhile isWhiteSpace (rev ?a))"
  have "dropWhile isWhiteSpace ?b = ?b"
    by (rule dropWhile_rev_dropWhile_rev) (rule dropWhile_no_leading)
  then show ?thesis by (simp add: trim_def)
qed

lemma normalizeText_alnumSp: "alnumSp (normalizeText s)"
  unfolding normalizeText_def
  by (intro alnumSp_trim alnumSp_collapseWhiteSpace alnumSp_replaceNonAlnum)

lemma normalizeText_collapsed: "collapsed (normalizeText s)"
  unfolding normalizeText_def by (intro collapsed_trim collapsed_collapseWhiteSpace)

text \<open>
  Claim C8. Normalization is idempotent: normalizing an already normalized string returns
  it unchanged.
\<close>

theorem normalizeText_idempotent: "normalizeText (normalizeText s) = normalizeText s"
proof -
  let ?y = "normalizeText s"
  have "normalizeText ?y = trim (collapseWhiteSpace ?y)"
    by (simp add: normalizeText_def [of ?y] unicode_stage_fixed [OF normalizeText_alnumSp])
  also have "\<dots> = trim ?y"
    by (simp add: collapsed_fixed [OF normalizeText_collapsed])
  also have "\<dots> = ?y"
    by (simp add: normalizeText_def [of s] trim_trim)
  finally show ?thesis .
qed

subsection \<open>Edit distance\<close>

text \<open>
  Each row built by the loops is the row of cells of the recursive characterization; the
  cells are symmetric under transposition and vanish on the diagonal of equal strings.
\<close>

lemma levInner_cell:
  "j \<le> length a \<Longrightarrow>
   levInner (b ! i) (drop j a) (map (cell a b i) [j..<Suc (length a)]) (cell a b (Suc i) j)
     = map (cell a b (Suc i)) [Suc j..<Suc (length a)]"
proof (induction "length a - j" arbitrary: j)
  case 0
  then have "j = length a" by simp
  then show ?case by simp
next
  case (Suc n)
  then have lt: "j < length a" by simp
  then have d: "drop j a = a ! j # drop (Suc j) a" by (simp add: Cons_nth_drop_Suc)
  from lt have u: "[j..<Suc (length a)] = j # [Suc j..<Suc (length a)]"
    by (simp add: upt_conv_Cons)
  from lt have u2: "[Suc j..<Suc (length a)] = Suc j # [Suc (Suc j)..<Suc (length a)]"
    by (simp add: upt_conv_Cons)
  from Suc(2) lt have n: "n = length a - Suc j" by simp
  from lt have le: "Suc j \<le> length a" by simp
  have IH: "levInner (b ! i) (drop (Suc j) a) (map (cell a b i) [Suc j..<Suc (length a)])
              (cell a b (Suc i) (Suc j)) = map (cell a b (Suc i)) [Suc (Suc j)..<Suc (length a)]"
    by (rule Suc(1) [OF n le])
  have "levInner (b ! i) (drop j a) (map (cell a b i) [j..<Suc (length a)]) (cell a b (Suc i) j)
        = cell a b (Suc i) (Suc j) #
          levInner (b ! i) (drop (Suc j) a)
            (cell a b i (Suc j) # map (cell a b i) [Suc (Suc j)..<Suc (length a)])
            (cell a b (Suc i) (Suc j))"
    unfolding d u by (subst u2) (simp add: Let_def)
  also have "cell a b i (Suc j) # map (cell a b i) [Suc (Suc j)..<Suc (length a)]
             = map (cell a b i) [Suc j..<Suc (length a)]"
    by (simp add: u2 del: upt_Suc)
  finally show ?case using IH by (subst u2) simp
qed

lemma levRows_cell:
  "i \<le> length b \<Longrightarrow>
   levRows (drop i b) a (Suc i) (map (cell a b i) [0..<Suc (length a)])
     = map (cell a b (length b)) [0..<Suc (length a)]"
proof (induction "length b - i" arbitrary: i)
  case 0
  then show ?case by simp
next
  case (Suc n)
  then have lt: "i < length b" by simp
  then have d: "drop i b = b ! i # drop (Suc i) b" by (simp add: Cons_nth_drop_Suc)
  from Suc(2) lt have n: "n = length b - Suc i" by simp
  from lt have le: "Suc i \<le> length b" by simp
  have row: "Suc i # levInner (b ! i) a (map (cell a b i) [0..<Suc (length a)]) (Suc i)
             = map (cell a b (Suc i)) [0..<Suc (length a)]"
    using levInner_cell [of 0 a b i] by (simp add: upt_conv_Cons del: upt_Suc)
  show ?case
    unfolding d using Suc(1) [OF n le] row by (simp del: upt_Suc)
qed

lemma cell_row0: "map (cell a b 0) xs = xs"
  by (rule map_idI) simp

lemma cell_col0: "cell a b i 0 = i"
  by (cases i) simp_all

lemma levenshtein_cell: "levenshtein a b = cell a b (length b) (length a)"
proof (cases "a = [] \<or> b = []")
  case True
  then show ?thesis by (cases "length b") (auto simp add: levenshtein_def)
next
  case False
  have "levRows b a 1 [0..<Suc (length a)] = map (cell a b (length b)) [0..<Suc (length a)]"
    using levRows_cell [of 0 b a] by (simp add: cell_row0 del: upt_Suc)
  with False show ?thesis by (simp add: levenshtein_def last_map)
qed

lemma cell_sym: "cell a b i j = cell b a j i"
  by (induction a b i j rule: cell.induct) (auto simp add: cell_col0 min.commute min.left_commute)

lemma cell_diag: "cell a a i i = 0"
  by (induction i) simp_all

lemma levInner_strict_cell:
  "j \<le> length b \<Longrightarrow>
   levInner_strict (a ! i) (drop j b) (map (cell_strict a b i) [j..<Suc (length b)])
       (cell_strict a b (Suc i) j)
     = map (cell_strict a b (Suc i)) [Suc j..<Suc (length b)]"
proof (induction "length b - j" arbitrary: j)
  case 0
  then have "j = length b" by simp
  then show ?case by simp
next
  case (Suc n)
  then have lt: "j < length b" by simp
  then have d: "drop j b = b ! j # drop (Suc j) b" by (simp add: Cons_nth_drop_Suc)
  from lt have u: "[j..<Suc (length b)] = j # [Suc j..<Suc (length b)]"
    by (simp add: upt_conv_Cons)
  from lt have u2: "[Suc j..<Suc (length b)] = Suc j # [Suc (Suc j)..<Suc (length b)]"
    by (simp add: upt_conv_Cons)
  from Suc(2) lt have n: "n = length b - Suc j" by simp
  from lt have le: "Suc j \<le> length b" by simp
  have IH: "levInner_strict (a ! i) (drop (Suc j) b)
              (map (cell_strict a b i) [Suc j..<Suc (length b)])
              (cell_strict a b (Suc i) (Suc j))
            = map (cell_strict a b (Suc i)) [Suc (Suc j)..<Suc (length b)]"
    by (rule Suc(1) [OF n le])
  have "levInner_strict (a ! i) (drop j b) (map (cell_strict a b i) [j..<Suc (length b)])
          (cell_strict a b (Suc i) j)
        = cell_strict a b (Suc i) (Suc j) #
          levInner_strict (a ! i) (drop (Suc j) b)
            (cell_strict a b i (Suc j) # map (cell_strict a b i) [Suc (Suc j)..<Suc (length b)])
            (cell_strict a b (Suc i) (Suc j))"
    unfolding d u by (subst u2) (simp add: Let_def)
  also have "cell_strict a b i (Suc j) # map (cell_strict a b i) [Suc (Suc j)..<Suc (length b)]
             = map (cell_strict a b i) [Suc j..<Suc (length b)]"
    by (simp add: u2 del: upt_Suc)
  finally show ?case using IH by (subst u2) simp
qed

lemma levRows_strict_cell:
  "i \<le> length a \<Longrightarrow>
   levRows_strict (drop i a) b (Suc i) (map (cell_strict a b i) [0..<Suc (length b)])
     = map (cell_strict a b (length a)) [0..<Suc (length b)]"
proof (induction "length a - i" arbitrary: i)
  case 0
  then show ?case by simp
next
  case (Suc n)
  then have lt: "i < length a" by simp
  then have d: "drop i a = a ! i # drop (Suc i) a" by (simp add: Cons_nth_drop_Suc)
  from Suc(2) lt have n: "n = length a - Suc i" by simp
  from lt have le: "Suc i \<le> length a" by simp
  have row: "Suc i # levInner_strict (a ! i) b (map (cell_strict a b i) [0..<Suc (length b)]) (Suc i)
             = map (cell_strict a b (Suc i)) [0..<Suc (length b)]"
    using levInner_strict_cell [of 0 b a i] by (simp add: upt_conv_Cons del: upt_Suc)
  show ?case
    unfolding d using Suc(1) [OF n le] row by (simp del: upt_Suc)
qed

lemma cell_strict_row0: "map (cell_strict a b 0) xs = xs"
  by (rule map_idI) simp

lemma cell_strict_col0: "cell_strict a b i 0 = i"
  by (cases i) simp_all

lemma levenshtein_strict_cell: "levenshtein_strict a b = cell_strict a b (length a) (length b)"
proof -
  have "levRows_strict a b 1 [0..<Suc (length b)]
        = map (cell_strict a b (length a)) [0..<Suc (length b)]"
    using levRows_strict_cell [of 0 a b] by (simp add: cell_strict_row0 del: upt_Suc)
  then show ?thesis by (simp add: levenshtein_strict_def last_map)
qed

lemma cell_strict_sym: "cell_strict a b i j = cell_strict b a j i"
  by (induction a b i j rule: cell_strict.induct)
    (auto simp add: cell_strict_col0 min.commute min.left_commute)

lemma cell_strict_diag: "cell_strict a a i i = 0"
  by (induction i) simp_all

text \<open>
  Claim C9. Both edit-distance implementations give distance 0 from a string to itself and
  are symmetric in their two arguments.
\<close>

theorem levenshtein_metric_laws:
  "levenshtein a a = 0 \<and> levenshtein a b = levenshtein b a \<and>
   levenshtein_strict a a = 0 \<and> levenshtein_strict a b = levenshtein_strict b a"
  by (simp add: levenshtein_cell cell_diag cell_sym [of a b]
      levenshtein_strict_cell cell_strict_diag cell_strict_sym [of a b])

subsection \<open>Evaluation on the concrete catalog\<close>

lemmas normalize_eval =
  normalizeText_def trim_def replaceNonAlnum_def normalizeNFD_def toLowerCase_def
  removeCombiningMarks_def canonicalDecomposition_def upperToLower_def alnum_def
  isWhiteSpace_def

lemmas score_eval =
  calculateMatchScore_def queryTokensOf_def allImportantTokensPresent_def
  STOP_WORDS_def CATEGORY_TERMS_def isNumeric_def decimalLiteral_def radixLiteral_def
  isDigit_def synonyms_def medicalThesaurus_def startsWith_def tokenScore_def
  tokenWeight_def matchStep_def levenshtein_def Let_def

lemma norm_mayo_cabo: "normalizeText ''mayo cabo'' = ''mayo cabo''"
  by (simp add: normalize_eval)

lemma norm_mayo_handle: "normalizeText ''mayo handle'' = ''mayo handle''"
  by (simp add: normalize_eval)

lemma score_mayoCabo: "calculateMatchScore mayoCabo ''mayo cabo'' = Inr 12000"
  by (simp add: score_eval mayoCabo_def norm_mayo_cabo)

lemma score_mayoHandle: "calculateMatchScore mayoHandle ''mayo cabo'' = Inr 15000"
  by (simp add: score_eval mayoHandle_def norm_mayo_cabo norm_mayo_handle)

lemma rank_example:
  "rank exampleCatalog ''mayo cabo''
   = Inr [mayoHandle\<lparr>matchScore := Some 15000\<rparr>, mayoCabo\<lparr>matchScore := Some 12000\<rparr>]"
  by (simp add: rank_def rankWith_def scoreAll_def exampleCatalog_def score_mayoCabo
      score_mayoHandle scoreOr0_def)

subsection \<open>Ranking\<close>

lemma filter_take_prefix:
  "filter P (take n xs) = take (length (filter P (take n xs))) (filter P xs)"
proof -
  have "filter P xs = filter P (take n xs) @ filter P (drop n xs)"
    by (metis append_take_drop_id filter_append)
  then show ?thesis by simp
qed

lemma mapE_list_all2:
  "mapE f xs = Inr ys \<Longrightarrow> list_all2 (\<lambda>x y. f x = Inr y) xs ys"
  by (induction xs arbitrary: ys) (auto split: sum.splits)

lemma scoreAll_list_all2:
  assumes "scoreAll score ps q = Inr scored"
  shows "list_all2 (\<lambda>p sp. \<exists>s. score p q = Inr s \<and> sp = p\<lparr>matchScore := Some s\<rparr>) ps scored"
proof -
  have "list_all2 (\<lambda>p sp. bindE (score p q) (\<lambda>s. Inr (p\<lparr>matchScore := Some s\<rparr>)) = Inr sp)
          ps scored"
    using assms unfolding scoreAll_def by (rule mapE_list_all2)
  then show ?thesis
    by (rule list_all2_mono) (auto simp add: bindE_def split: sum.splits)
qed

lemma rankWith_properties:
  assumes "rankWith score ps q = Inr ms"
  shows "\<exists>scored. scoreAll score ps q = Inr scored \<and>
           list_all2 (\<lambda>p sp. \<exists>s. score p q = Inr s \<and> sp = p\<lparr>matchScore := Some s\<rparr>)
             ps scored \<and>
           length ms \<le> 15 \<and>
           sorted_wrt (\<lambda>a b. scoreOr0 a \<ge> scoreOr0 b) ms \<and>
           list_all (\<lambda>p. 0 < scoreOr0 p) ms \<and>
           (\<forall>k. filter (\<lambda>p. scoreOr0 p = k) ms =
                  take (length (filter (\<lambda>p. scoreOr0 p = k) ms))
                    (filter (\<lambda>p. scoreOr0 p = k) scored))"
proof -
  from assms obtain scored where sc: "scoreAll score ps q = Inr scored"
    and ms: "ms = take 15 (sort_key (\<lambda>p. - scoreOr0 p) (filter (\<lambda>p. scoreOr0 p > 0) scored))"
    by (auto simp add: rankWith_def bindE_def split: sum.splits)
  let ?pos = "filter (\<lambda>p. scoreOr0 p > 0) scored"
  let ?srt = "sort_key (\<lambda>p. - scoreOr0 p) ?pos"
  have len: "length ms \<le> 15" by (simp add: ms)
  have "sorted (map (\<lambda>p. - scoreOr0 p) ?srt)" by (rule sorted_sort_key)
  then have "sorted_wrt (\<lambda>a b. scoreOr0 a \<ge> scoreOr0 b) ?srt"
    by (simp add: sorted_map)
  then have srt: "sorted_wrt (\<lambda>a b. scoreOr0 a \<ge> scoreOr0 b) ms"
    unfolding ms by (rule sorted_wrt_take)
  have "set ms \<subseteq> set ?srt" unfolding ms by (rule set_take_subset)
  then have pos: "list_all (\<lambda>p. 0 < scoreOr0 p) ms"
    by (auto simp add: list_all_iff)
  have stab: "filter (\<lambda>p. scoreOr0 p = k) ms =
                take (length (filter (\<lambda>p. scoreOr0 p = k) ms))
                  (filter (\<lambda>p. scoreOr0 p = k) scored)" for k
  proof (cases "0 < k")
    case True
    have "filter (\<lambda>p. - scoreOr0 p = - k) ?srt = filter (\<lambda>p. - scoreOr0 p = - k) ?pos"
      by (rule sort_key_stable)
    then have "filter (\<lambda>p. scoreOr0 p = k) ?srt = filter (\<lambda>p. scoreOr0 p = k) ?pos"
      by simp
    also have "\<dots> = filter (\<lambda>p. scoreOr0 p = k) scored"
      using True by (auto intro: filter_cong)
    finally have "filter (\<lambda>p. scoreOr0 p = k) ?srt = filter (\<lambda>p. scoreOr0 p = k) scored" .
    with filter_take_prefix [of "\<lambda>p. scoreOr0 p = k" 15 ?srt] show ?thesis
      by (simp add: ms)
  next
    case False
    with pos have "filter (\<lambda>p. scoreOr0 p = k) ms = []"
      by (auto simp add: list_all_iff filter_empty_conv)
    then show ?thesis by simp
  qed
  from sc scoreAll_list_all2 [OF sc] len srt pos stab show ?thesis by blast
qed

subsection \<open>The score of App.tsx\<close>

lemma stop_words_synonyms_all:
  "list_all (\<lambda>t. synonyms medicalThesaurus t = Inr [t]) STOP_WORDS"
  unfolding STOP_WORDS_def medicalThesaurus_def synonyms_def by simp

lemma stop_word_synonyms: "t \<in> set STOP_WORDS \<Longrightarrow> synonyms medicalThesaurus t = Inr [t]"
  using stop_words_synonyms_all by (simp add: list_all_iff)

lemma stop_words_not_accessory_all:
  "list_all (\<lambda>t. t \<noteq> ''cabo'' \<and> t \<noteq> ''suporte'') STOP_WORDS"
  unfolding STOP_WORDS_def by simp

lemma stop_word_not_accessory: "t \<in> set STOP_WORDS \<Longrightarrow> t \<noteq> ''cabo'' \<and> t \<noteq> ''suporte''"
  using stop_words_not_accessory_all by (simp add: list_all_iff)

lemma gate_stop_words:
  "set ts \<subseteq> set STOP_WORDS \<Longrightarrow> allImportantTokensPresent ts normalizedTitle = Inr True"
  unfolding allImportantTokensPresent_def by (rule everyE_all_true) auto

lemma tokenWeight_pos: "0 < tokenWeight t"
  by (simp add: tokenWeight_def)

lemma matchStep_nonneg: "0 \<le> b \<Longrightarrow> 0 \<le> matchStep t w syns b pToken"
  by (auto simp add: matchStep_def Let_def max_def)

lemma foldl_matchStep_nonneg: "0 \<le> b \<Longrightarrow> 0 \<le> foldl (matchStep t w syns) b pts"
  by (induction pts arbitrary: b) (simp_all add: matchStep_nonneg)

lemma tokenScore_mono:
  assumes "synonyms medicalThesaurus t = Inr syns"
  shows "\<exists>tot'. tokenScore pts tot t = Inr tot' \<and> tot \<le> tot'"
proof -
  have "0 \<le> foldl (matchStep t (tokenWeight t) syns) 0 pts * tokenWeight t"
    using foldl_matchStep_nonneg [of 0 t "tokenWeight t" syns pts] tokenWeight_pos [of t]
    by simp
  with assms show ?thesis by (simp add: tokenScore_def Let_def)
qed

lemma foldE_tokenScore_mono:
  assumes "\<And>t. t \<in> set ts \<Longrightarrow> \<exists>syns. synonyms medicalThesaurus t = Inr syns"
  shows "\<exists>w. foldE (tokenScore pts) tot ts = Inr w \<and> tot \<le> w"
  using assms
proof (induction ts arbitrary: tot)
  case Nil
  show ?case by simp
next
  case (Cons t ts)
  from Cons.prems [of t] obtain syns where "synonyms medicalThesaurus t = Inr syns" by auto
  from tokenScore_mono [OF this, of pts tot]
  obtain tot' where t': "tokenScore pts tot t = Inr tot'" and le: "tot \<le> tot'"
    by blast
  from Cons.IH [of tot'] Cons.prems
  obtain w where "foldE (tokenScore pts) tot' ts = Inr w" and "tot' \<le> w"
    by auto
  with t' le show ?case by auto
qed

lemma stop_word_query_score:
  assumes ne: "queryTokensOf q \<noteq> []" and stop: "set (queryTokensOf q) \<subseteq> set STOP_WORDS"
  shows "\<exists>v. calculateMatchScore p q = Inr v \<and> 3000 \<le> v"
proof -
  from ne obtain a ts where toks: "queryTokensOf q = a # ts" by (cases "queryTokensOf q") auto
  let ?title = "normalizeText (title p)"
  from stop have gate: "allImportantTokensPresent (queryTokensOf q) ?title = Inr True"
    by (rule gate_stop_words)
  have "\<And>t. t \<in> set (queryTokensOf q) \<Longrightarrow> \<exists>syns. synonyms medicalThesaurus t = Inr syns"
    using stop stop_word_synonyms by blast
  from foldE_tokenScore_mono [OF this, of "queryTokensOf q" "split ?title" 6000]
  obtain w where w: "foldE (tokenScore (split ?title)) 6000 (queryTokensOf q) = Inr w"
    and wle: "6000 \<le> w" by auto
  from stop toks have a: "a \<in> set STOP_WORDS" by auto
  have syn: "synonyms medicalThesaurus a = Inr [a]" by (rule stop_word_synonyms [OF a])
  from gate w syn wle toks show ?thesis
    by (auto simp add: calculateMatchScore_def Let_def)
qed

lemma rankWith_all_positive:
  assumes "\<And>p. p \<in> set ps \<Longrightarrow> \<exists>v. score p q = Inr v \<and> 0 < v"
  shows "\<exists>ms. rankWith score ps q = Inr ms \<and> length ms = min (length ps) 15"
proof -
  let ?g = "\<lambda>p. p\<lparr>matchScore := Some (projr (score p q))\<rparr>"
  have "scoreAll score ps q = Inr (map ?g ps)"
    unfolding scoreAll_def
  proof (rule mapE_pure)
    fix p assume "p \<in> set ps"
    from assms [OF this] obtain v where "score p q = Inr v" by blast
    then show "bindE (score p q) (\<lambda>s. Inr (p\<lparr>matchScore := Some s\<rparr>)) = Inr (?g p)" by simp
  qed
  moreover have "filter (\<lambda>p. scoreOr0 p > 0) (map ?g ps) = map ?g ps"
  proof -
    have "\<And>p. p \<in> set ps \<Longrightarrow> 0 < scoreOr0 (?g p)"
    proof -
      fix p assume "p \<in> set ps"
      from assms [OF this] obtain v where "score p q = Inr v" "0 < v" by blast
      then show "0 < scoreOr0 (?g p)" by (simp add: scoreOr0_def)
    qed
    then show ?thesis by (simp add: filter_id_conv)
  qed
  ultimately show ?thesis by (simp add: rankWith_def min.commute)
qed

text \<open>
  Claim C10. In the scoring of App.tsx, a query with at least one token, all of whose
  tokens are stop words, passes the completeness gate on every title; its score on every
  catalog item is at least 6000 - 3000, hence positive, and the ranking returns
  min(catalog size, 15) candidates.
\<close>

theorem stop_word_query_matches_everything:
  assumes "queryTokensOf q \<noteq> []" and "set (queryTokensOf q) \<subseteq> set STOP_WORDS"
  shows "allImportantTokensPresent (queryTokensOf q) (normalizeText (title p)) = Inr True \<and>
         (\<exists>v. calculateMatchScore p q = Inr v \<and> 3000 \<le> v) \<and>
         (\<exists>ms. rank ps q = Inr ms \<and> length ms = min (length ps) 15)"
proof -
  have "\<And>x. x \<in> set ps \<Longrightarrow> \<exists>v. calculateMatchScore x q = Inr v \<and> 0 < v"
  proof -
    fix x
    from stop_word_query_score [OF assms, of x]
    obtain v where "calculateMatchScore x q = Inr v" and "3000 \<le> v" by blast
    then show "\<exists>v. calculateMatchScore x q = Inr v \<and> 0 < v" by auto
  qed
  then have "\<exists>ms. rank ps q = Inr ms \<and> length ms = min (length ps) 15"
    unfolding rank_def by (rule rankWith_all_positive)
  with gate_stop_words [OF assms(2)] stop_word_query_score [OF assms, of p]
  show ?thesis by simp
qed

lemma queryTokensOf_de_com: "queryTokensOf ''de com'' = [''de'', ''com'']"
  by (simp add: queryTokensOf_def normalizeText_def trim_def replaceNonAlnum_def
      normalizeNFD_def toLowerCase_def removeCombiningMarks_def canonicalDecomposition_def
      upperToLower_def alnum_def isWhiteSpace_def)

theorem stop_word_query_witness:
  "queryTokensOf ''de com'' \<noteq> [] \<and> set (queryTokensOf ''de com'') \<subseteq> set STOP_WORDS \<and>
   allImportantTokensPresent (queryTokensOf ''de com'') (normalizeText (title mayoCabo))
     = Inr True \<and>
   (\<exists>v. calculateMatchScore mayoCabo ''de com'' = Inr v \<and> 3000 \<le> v) \<and>
   (\<exists>ms. rank exampleCatalog ''de com'' = Inr ms \<and> length ms = min (length exampleCatalog) 15)"
proof -
  have a: "queryTokensOf ''de com'' \<noteq> []" by (simp add: queryTokensOf_de_com)
  have b: "set (queryTokensOf ''de com'') \<subseteq> set STOP_WORDS"
    by (simp add: queryTokensOf_de_com STOP_WORDS_def)
  from a b stop_word_query_matches_everything [OF a b, of mayoCabo exampleCatalog]
  show ?thesis by simp
qed

subsection \<open>Titles equal to the query\<close>

lemma split_nonempty: "split s \<noteq> []"
  by (induction s) (auto split: list.splits)

lemma split_hd_prefix: "startsWith s (hd (split s))"
  by (induction s) (auto simp add: startsWith_def split: list.splits)

lemma includesStr_startsWith: "startsWith s t \<Longrightarrow> includesStr s t"
  by (cases s) (auto simp add: startsWith_def)

lemma split_includesStr: "t \<in> set (split s) \<Longrightarrow> includesStr s t"
proof (induction s)
  case Nil
  then show ?case by simp
next
  case (Cons c s)
  show ?case
  proof (cases "c = CHR '' ''")
    case True
    with Cons show ?thesis by (auto simp add: startsWith_def)
  next
    case False
    from split_nonempty [of s] obtain t0 ts where sp: "split s = t0 # ts"
      by (cases "split s") auto
    with False Cons.prems have "t = c # t0 \<or> t \<in> set ts" by simp
    then show ?thesis
    proof
      assume t: "t = c # t0"
      from split_hd_prefix [of s] sp have "startsWith s t0" by simp
      with t show ?thesis by (simp add: startsWith_def)
    next
      assume "t \<in> set ts"
      with sp have "t \<in> set (split s)" by simp
      with Cons.IH show ?thesis by simp
    qed
  qed
qed

lemma thesaurus_keys_are_synonyms:
  "list_all (\<lambda>(k, syns). k \<in> set syns) medicalThesaurus"
  unfolding medicalThesaurus_def by simp

lemma synonyms_self:
  assumes "t \<noteq> ''constructor''"
  shows "\<exists>syns. synonyms medicalThesaurus t = Inr syns \<and> t \<in> set syns"
proof (cases "map_of medicalThesaurus t")
  case None
  with assms show ?thesis by (simp add: synonyms_def)
next
  case (Some syns)
  then have "(t, syns) \<in> set medicalThesaurus" by (rule map_of_SomeD)
  with thesaurus_keys_are_synonyms have "t \<in> set syns"
    by (auto simp add: list_all_iff)
  with Some show ?thesis by (simp add: synonyms_def)
qed

lemma member_neq: "c \<notin> set ts \<Longrightarrow> t \<in> set ts \<Longrightarrow> t \<noteq> c"
  by auto

lemma synonyms_defined:
  assumes "''constructor'' \<notin> set ts" and "t \<in> set ts"
  shows "\<exists>syns. synonyms medicalThesaurus t = Inr syns"
proof -
  have "t \<noteq> ''constructor''" by (rule member_neq [OF assms])
  from synonyms_self [OF this] show ?thesis by (elim exE conjE) (rule exI)
qed

lemma everyE_total:
  "(\<And>x. x \<in> set xs \<Longrightarrow> \<exists>b. f x = Inr b) \<Longrightarrow> \<exists>b. everyE f xs = Inr b"
proof (induction xs)
  case Nil
  show ?case by auto
next
  case (Cons x xs)
  from Cons.prems [of x] obtain b where b: "f x = Inr b" by auto
  from Cons.IH Cons.prems obtain b' where "everyE f xs = Inr b'" by auto
  with b show ?case by auto
qed

lemma score_total:
  assumes "''constructor'' \<notin> set (queryTokensOf q)"
  shows "calculateMatchScore x q = Inr (scoreOf x q)"
proof (cases "queryTokensOf q")
  case Nil
  then show ?thesis by (simp add: calculateMatchScore_def scoreOf_def)
next
  case (Cons a ts)
  let ?title = "normalizeText (title x)"
  have syn: "\<And>t. t \<in> set (queryTokensOf q) \<Longrightarrow> \<exists>syns. synonyms medicalThesaurus t = Inr syns"
    by (rule synonyms_defined [OF assms])
  have "\<exists>b. allImportantTokensPresent (queryTokensOf q) ?title = Inr b"
    unfolding allImportantTokensPresent_def
  proof (rule everyE_total)
    fix t assume "t \<in> set (queryTokensOf q)"
    from syn [OF this] obtain syns where "synonyms medicalThesaurus t = Inr syns" by blast
    then show "\<exists>b. (if t \<in> set STOP_WORDS then Inr True
                else if length t < 3 \<and> isNumeric t then Inr True
                else bindE (synonyms medicalThesaurus t)
                       (\<lambda>syns. Inr (list_ex (\<lambda>syn. includesStr ?title syn) syns))) = Inr b"
      by auto
  qed
  then obtain b where gate: "allImportantTokensPresent (queryTokensOf q) ?title = Inr b" by blast
  from foldE_tokenScore_mono [OF syn, of "queryTokensOf q" "split ?title" "if b then 6000 else 0"]
  obtain w where w: "foldE (tokenScore (split ?title)) (if b then 6000 else 0) (queryTokensOf q)
                     = Inr w" by auto
  from syn [of a] Cons obtain syns where a: "synonyms medicalThesaurus a = Inr syns" by auto
  from gate w a Cons have "\<exists>v. calculateMatchScore x q = Inr v"
    by (simp add: calculateMatchScore_def Let_def)
  then show ?thesis by (auto simp add: scoreOf_def)
qed

lemma exact_title_gate:
  assumes "''constructor'' \<notin> set (queryTokensOf q)"
  shows "allImportantTokensPresent (queryTokensOf q) (normalizeText q) = Inr True"
  unfolding allImportantTokensPresent_def
proof (rule everyE_all_true)
  fix t assume t: "t \<in> set (queryTokensOf q)"
  have "t \<noteq> ''constructor''" by (rule member_neq [OF assms t])
  from synonyms_self [OF this] obtain syns
    where syns: "synonyms medicalThesaurus t = Inr syns" and self: "t \<in> set syns" by blast
  from t have "t \<in> set (split (normalizeText q))" by (simp add: queryTokensOf_def)
  then have "includesStr (normalizeText q) t" by (rule split_includesStr)
  with self have "list_ex (\<lambda>syn. includesStr (normalizeText q) syn) syns"
    by (auto simp add: list_ex_iff)
  with syns show "(if t \<in> set STOP_WORDS then Inr True
                   else if length t < 3 \<and> isNumeric t then Inr True
                   else bindE (synonyms medicalThesaurus t)
                          (\<lambda>syns. Inr (list_ex (\<lambda>syn. includesStr (normalizeText q) syn) syns)))
                  = Inr True"
    by simp
qed

lemma exact_title_score:
  assumes eq: "normalizeText (title p) = normalizeText q"
    and ne: "queryTokensOf q \<noteq> []"
    and nc: "''constructor'' \<notin> set (queryTokensOf q)"
  shows "3000 \<le> scoreOf p q"
proof -
  from ne obtain a ts where toks: "queryTokensOf q = a # ts" by (cases "queryTokensOf q") auto
  have syn: "\<And>t. t \<in> set (queryTokensOf q) \<Longrightarrow> \<exists>syns. synonyms medicalThesaurus t = Inr syns"
    by (rule synonyms_defined [OF nc])
  have gate: "allImportantTokensPresent (queryTokensOf q) (normalizeText q) = Inr True"
    by (rule exact_title_gate [OF nc])
  from foldE_tokenScore_mono [OF syn, of "queryTokensOf q" "split (normalizeText q)" 6000]
  obtain w where w: "foldE (tokenScore (split (normalizeText q))) 6000 (queryTokensOf q) = Inr w"
    and wle: "6000 \<le> w" by auto
  from syn [of a] toks obtain syns where a: "synonyms medicalThesaurus a = Inr syns" by auto
  from gate w a wle toks eq show ?thesis
    by (auto simp add: calculateMatchScore_def scoreOf_def Let_def)
qed

lemma insort_key_least:
  "(\<And>y. y \<in> set ys \<Longrightarrow> f x \<le> f y) \<Longrightarrow> insort_key f x ys = x # ys"
  by (cases ys) simp_all

lemma sort_key_first_min:
  assumes "\<And>b. b \<in> set bs \<Longrightarrow> f x < f b" and "\<And>a. a \<in> set as \<Longrightarrow> f x \<le> f a"
  shows "\<exists>rest. sort_key f (bs @ x # as) = x # rest"
  using assms(1)
proof (induction bs)
  case Nil
  have "insort_key f x (sort_key f as) = x # sort_key f as"
    by (rule insort_key_least) (simp add: assms(2))
  then show ?case by (simp add: sort_key_def)
next
  case (Cons b bs)
  from Cons.IH Cons.prems obtain rest where r: "sort_key f (bs @ x # as) = x # rest" by auto
  from Cons.prems [of b] have "\<not> f b \<le> f x" by simp
  with r show ?case by (simp add: sort_key_def)
qed

lemma rank_first_best:
  assumes nc: "''constructor'' \<notin> set (queryTokensOf q)"
    and pos: "0 < scoreOf p q"
    and before: "list_all (\<lambda>x. scoreOf x q < scoreOf p q) before"
    and after: "list_all (\<lambda>x. scoreOf x q \<le> scoreOf p q) after"
  shows "\<exists>ms. rank (before @ p # after) q = Inr (p\<lparr>matchScore := Some (scoreOf p q)\<rparr> # ms)"
proof -
  let ?g = "\<lambda>x. x\<lparr>matchScore := Some (scoreOf x q)\<rparr>"
  let ?pos = "\<lambda>x. 0 < scoreOr0 x"
  let ?key = "\<lambda>x. - scoreOr0 x"
  have all: "scoreAll calculateMatchScore (before @ p # after) q = Inr (map ?g (before @ p # after))"
    unfolding scoreAll_def
    by (rule mapE_pure) (simp add: score_total [OF nc])
  have so: "\<And>x. scoreOr0 (?g x) = scoreOf x q" by (simp add: scoreOr0_def)
  have flt: "filter ?pos (map ?g (before @ p # after))
             = filter ?pos (map ?g before) @ ?g p # filter ?pos (map ?g after)"
    using pos by (simp add: so)
  have "\<exists>rest. sort_key ?key (filter ?pos (map ?g before) @ ?g p # filter ?pos (map ?g after))
          = ?g p # rest"
  proof (rule sort_key_first_min)
    fix b assume "b \<in> set (filter ?pos (map ?g before))"
    then obtain x where "x \<in> set before" "b = ?g x" by auto
    with before show "?key (?g p) < ?key b" by (simp add: so list_all_iff)
  next
    fix a assume "a \<in> set (filter ?pos (map ?g after))"
    then obtain x where "x \<in> set after" "a = ?g x" by auto
    with after show "?key (?g p) \<le> ?key a" by (simp add: so list_all_iff)
  qed
  then obtain rest where
    "sort_key ?key (filter ?pos (map ?g (before @ p # after))) = ?g p # rest"
    using flt by auto
  with all show ?thesis by (simp add: rank_def rankWith_def)
qed

text \<open>
  Claim C1, as stated, fails. In the catalog of the two items titled \<open>mayo cabo\<close> and
  \<open>mayo handle\<close>, in this order, the first has the query \<open>mayo cabo\<close> as its normalized
  title, yet the ranking of that query returns the second item first: the exact title
  scores 6000 + 4500 + 2500 + 2000 - 3000 = 12000, since its word \<open>cabo\<close> draws the
  accessory penalty (the anchor is \<open>mayo\<close>); the other title matches \<open>cabo\<close> through
  the synonym \<open>handle\<close>, draws no penalty and scores 15000.
\<close>

theorem exact_title_not_top_counterexample:
  "mayoCabo \<in> set exampleCatalog \<and>
   normalizeText (title mayoCabo) = normalizeText ''mayo cabo'' \<and>
   calculateMatchScore mayoCabo ''mayo cabo'' = Inr 12000 \<and>
   calculateMatchScore mayoHandle ''mayo cabo'' = Inr 15000 \<and>
   rank exampleCatalog ''mayo cabo''
     = Inr [mayoHandle\<lparr>matchScore := Some 15000\<rparr>, mayoCabo\<lparr>matchScore := Some 12000\<rparr>] \<and>
   title (mayoHandle\<lparr>matchScore := Some 15000\<rparr>) = ''mayo handle''"
  using rank_example score_mayoCabo score_mayoHandle
  by (simp add: exampleCatalog_def mayoCabo_def mayoHandle_def)

lemma tokens_mayo_handle: "queryTokensOf ''mayo handle'' = [''mayo'', ''handle'']"
  by (simp add: queryTokensOf_def norm_mayo_handle)

lemma score_mayoCabo_handle: "calculateMatchScore mayoCabo ''mayo handle'' = Inr 3500"
  by (simp add: score_eval mayoCabo_def norm_mayo_cabo norm_mayo_handle)

lemma score_mayoHandle_handle: "calculateMatchScore mayoHandle ''mayo handle'' = Inr 17000"
  by (simp add: score_eval mayoHandle_def norm_mayo_handle)

subsection \<open>The score of a title equal to the query is maximal\<close>

lemma matchStep_le_one: "b \<le> 1 \<Longrightarrow> matchStep t w syns b pToken \<le> 1"
  by (simp add: matchStep_def Let_def)

lemma matchStep_ge: "b \<le> matchStep t w syns b pToken"
  by (simp add: matchStep_def Let_def)

lemma foldl_matchStep_le_one: "b \<le> 1 \<Longrightarrow> foldl (matchStep t w syns) b pts \<le> 1"
  by (induction pts arbitrary: b) (simp_all add: matchStep_le_one)

lemma foldl_matchStep_ge: "b \<le> foldl (matchStep t w syns) b pts"
proof (induction pts arbitrary: b)
  case Nil
  show ?case by simp
next
  case (Cons x xs)
  have "b \<le> matchStep t w syns b x" by (rule matchStep_ge)
  also have "\<dots> \<le> foldl (matchStep t w syns) (matchStep t w syns b x) xs" by (rule Cons.IH)
  finally show ?case by simp
qed

lemma foldl_matchStep_one:
  assumes "pToken \<in> set pts" and "pToken \<in> set syns" and "b \<le> 1"
  shows "foldl (matchStep t w syns) b pts = 1"
  using assms(1,3)
proof (induction pts arbitrary: b)
  case Nil
  then show ?case by simp
next
  case (Cons x xs)
  show ?case
  proof (cases "x = pToken")
    case True
    with assms(2) Cons.prems(2) have "matchStep t w syns b x = 1"
      by (simp add: matchStep_def list_ex_iff)
    moreover have "foldl (matchStep t w syns) 1 xs = 1"
      using foldl_matchStep_le_one [of 1 t w syns xs] foldl_matchStep_ge [of 1 t w syns xs]
      by simp
    ultimately show ?thesis by simp
  next
    case False
    with Cons.prems(1) have "pToken \<in> set xs" by simp
    from Cons.IH [OF this matchStep_le_one [OF Cons.prems(2)]] show ?thesis by simp
  qed
qed

lemma tokenScore_upper:
  assumes "synonyms medicalThesaurus t = Inr syns"
  shows "\<exists>tot'. tokenScore pts tot t = Inr tot' \<and> tot' \<le> tot + tokenWeight t"
proof -
  let ?best = "foldl (matchStep t (tokenWeight t) syns) 0 pts"
  have "?best \<le> 1" by (rule foldl_matchStep_le_one) simp
  with tokenWeight_pos [of t] have "?best * tokenWeight t \<le> 1 * tokenWeight t"
    by (intro mult_right_mono) simp_all
  with assms tokenWeight_pos [of t] show ?thesis by (simp add: tokenScore_def Let_def)
qed

lemma foldE_tokenScore_upper:
  assumes "\<And>t. t \<in> set ts \<Longrightarrow> \<exists>syns. synonyms medicalThesaurus t = Inr syns"
  shows "\<exists>w. foldE (tokenScore pts) tot ts = Inr w \<and> w \<le> tot + sum_list (map tokenWeight ts)"
  using assms
proof (induction ts arbitrary: tot)
  case Nil
  show ?case by simp
next
  case (Cons t ts)
  from Cons.prems [of t] obtain syns where "synonyms medicalThesaurus t = Inr syns" by auto
  from tokenScore_upper [OF this, of pts tot]
  obtain tot' where t': "tokenScore pts tot t = Inr tot'" and le: "tot' \<le> tot + tokenWeight t"
    by (elim exE conjE)
  from Cons.IH [of tot'] Cons.prems
  obtain w where "foldE (tokenScore pts) tot' ts = Inr w"
    and "w \<le> tot' + sum_list (map tokenWeight ts)"
    by auto
  with t' le show ?case by auto
qed

lemma score_upper:
  assumes nc: "''constructor'' \<notin> set (queryTokensOf q)"
  shows "scoreOf x q \<le> 8000 + sum_list (map tokenWeight (queryTokensOf q))"
proof (cases "queryTokensOf q")
  case Nil
  then show ?thesis by (simp add: calculateMatchScore_def scoreOf_def)
next
  case (Cons a ts)
  let ?title = "normalizeText (title x)"
  let ?sum = "sum_list (map tokenWeight (queryTokensOf q))"
  have syn: "\<And>t. t \<in> set (queryTokensOf q) \<Longrightarrow> \<exists>syns. synonyms medicalThesaurus t = Inr syns"
    by (rule synonyms_defined [OF nc])
  have "\<exists>b. allImportantTokensPresent (queryTokensOf q) ?title = Inr b"
    unfolding allImportantTokensPresent_def
  proof (rule everyE_total)
    fix t assume "t \<in> set (queryTokensOf q)"
    from syn [OF this] obtain syns where "synonyms medicalThesaurus t = Inr syns" by (elim exE)
    then show "\<exists>b. (if t \<in> set STOP_WORDS then Inr True
                else if length t < 3 \<and> isNumeric t then Inr True
                else bindE (synonyms medicalThesaurus t)
                       (\<lambda>syns. Inr (list_ex (\<lambda>syn. includesStr ?title syn) syns))) = Inr b"
      by auto
  qed
  then obtain b where gate: "allImportantTokensPresent (queryTokensOf q) ?title = Inr b"
    by (elim exE)
  from foldE_tokenScore_upper [OF syn, of "queryTokensOf q" "split ?title"
      "if b then 6000 else 0"]
  obtain w where w: "foldE (tokenScore (split ?title)) (if b then 6000 else 0) (queryTokensOf q)
                     = Inr w" and wle: "w \<le> (if b then 6000 else 0) + ?sum"
    by auto
  from wle have w6: "w \<le> 6000 + ?sum" by (cases b) simp_all
  from syn [of a] Cons obtain syns where a: "synonyms medicalThesaurus a = Inr syns" by auto
  have "\<exists>v. calculateMatchScore x q = Inr v \<and> v \<le> w + 2000"
    using gate w a Cons by (simp add: calculateMatchScore_def Let_def)
  then obtain v where "calculateMatchScore x q = Inr v" and "v \<le> w + 2000" by (elim exE conjE)
  with w6 show ?thesis by (simp add: scoreOf_def)
qed

lemma tokenScore_exact:
  assumes "synonyms medicalThesaurus t = Inr syns" and "t \<in> set syns" and "t \<in> set pts"
  shows "tokenScore pts tot t = Inr (tot + tokenWeight t)"
proof -
  have "foldl (matchStep t (tokenWeight t) syns) 0 pts = 1"
    by (rule foldl_matchStep_one [OF assms(3) assms(2)]) simp
  with assms(1) show ?thesis by (simp add: tokenScore_def Let_def)
qed

lemma foldE_tokenScore_exact:
  assumes "''constructor'' \<notin> set ts" and "set ts \<subseteq> set pts"
  shows "foldE (tokenScore pts) tot ts = Inr (tot + sum_list (map tokenWeight ts))"
  using assms
proof (induction ts arbitrary: tot)
  case Nil
  show ?case by simp
next
  case (Cons t ts)
  have "t \<in> set (t # ts)" by simp
  then have "t \<noteq> ''constructor''" by (rule member_neq [OF Cons.prems(1)])
  from synonyms_self [OF this] obtain syns
    where syns: "synonyms medicalThesaurus t = Inr syns" and self: "t \<in> set syns"
    by (elim exE conjE)
  from Cons.prems(2) have mem: "t \<in> set pts" by simp
  have rest: "''constructor'' \<notin> set ts"
  proof
    assume "''constructor'' \<in> set ts"
    then have "''constructor'' \<in> set (t # ts)" by (rule list.set_intros(2))
    with Cons.prems(1) show False by (rule notE)
  qed
  from Cons.prems(2) have sub: "set ts \<subseteq> set pts" by simp
  from tokenScore_exact [OF syns self mem, of tot] Cons.IH [OF rest sub, of "tot + tokenWeight t"]
  show ?case by (simp add: add.assoc)
qed

lemma dropWhile_fixed_no_leading: "dropWhile P b = b \<Longrightarrow> b = [] \<or> \<not> P (hd b)"
proof (cases b)
  case Nil
  then show ?thesis by simp
next
  case (Cons h t)
  assume fx: "dropWhile P b = b"
  show ?thesis
  proof (cases "P h")
    case True
    with Cons fx have "dropWhile P t = h # t" by simp
    then have "length (dropWhile P t) = Suc (length t)" by simp
    with length_dropWhile_le [of P t] show ?thesis by simp
  next
    case False
    with Cons show ?thesis by simp
  qed
qed

lemma trim_no_leading: "trim y = [] \<or> \<not> isWhiteSpace (hd (trim y))"
proof -
  have "dropWhile isWhiteSpace (trim y) = trim y"
    unfolding trim_def
    by (rule dropWhile_rev_dropWhile_rev) (rule dropWhile_no_leading)
  then show ?thesis by (rule dropWhile_fixed_no_leading)
qed

lemma split_first_token:
  assumes "queryTokensOf q = a # ts"
  shows "\<exists>rest. split (normalizeText q) = a # rest"
proof -
  let ?s = "normalizeText q"
  have ne: "?s \<noteq> []"
  proof
    assume "?s = []"
    with assms show False by (simp add: queryTokensOf_def)
  qed
  have "?s = trim (collapseWhiteSpace (replaceNonAlnum (removeCombiningMarks
                 (normalizeNFD (toLowerCase q)))))"
    by (simp add: normalizeText_def)
  with trim_no_leading [of "collapseWhiteSpace (replaceNonAlnum (removeCombiningMarks
                 (normalizeNFD (toLowerCase q))))"] ne
  have "\<not> isWhiteSpace (hd ?s)" by simp
  moreover have "isWhiteSpace (CHR '' '')" by (simp add: isWhiteSpace_def)
  ultimately have nsp: "hd ?s \<noteq> CHR '' ''" by auto
  from ne obtain c s' where s: "?s = c # s'" by (cases ?s) auto
  with nsp have c: "c \<noteq> CHR '' ''" by simp
  from split_nonempty [of s'] obtain t0 r where sp: "split s' = t0 # r"
    by (cases "split s'") auto
  from s c sp have whole: "split ?s = (c # t0) # r" by simp
  with assms have "a = c # t0" by (simp add: queryTokensOf_def)
  with whole show ?thesis by simp
qed

lemma exact_score_value:
  assumes eq: "normalizeText (title p) = normalizeText q"
    and toks: "queryTokensOf q = a # ts"
    and nc: "''constructor'' \<notin> set (queryTokensOf q)"
    and np: "''cabo'' \<in> set (queryTokensOf q) \<or> ''suporte'' \<in> set (queryTokensOf q)
             \<Longrightarrow> a = ''cabo'' \<or> a = ''suporte''"
  shows "calculateMatchScore p q = Inr (8000 + sum_list (map tokenWeight (queryTokensOf q)))"
proof -
  let ?s = "normalizeText q"
  let ?sum = "sum_list (map tokenWeight (queryTokensOf q))"
  have gate: "allImportantTokensPresent (queryTokensOf q) ?s = Inr True"
    by (rule exact_title_gate [OF nc])
  have sub: "set (queryTokensOf q) \<subseteq> set (split ?s)" by (auto simp add: queryTokensOf_def)
  have w: "foldE (tokenScore (split ?s)) 6000 (queryTokensOf q) = Inr (6000 + ?sum)"
    by (rule foldE_tokenScore_exact [OF nc sub])
  have "a \<in> set (queryTokensOf q)" by (simp add: toks)
  then have "a \<noteq> ''constructor''" by (rule member_neq [OF nc])
  from synonyms_self [OF this] obtain syns
    where syns: "synonyms medicalThesaurus a = Inr syns" and self: "a \<in> set syns"
    by (elim exE conjE)
  from split_first_token [OF toks] obtain rest where sp: "split ?s = a # rest" by (elim exE)
  with self have idx: "findIndex (\<lambda>p. p \<in> set syns) (split ?s) = 0" by simp
  have acc: "(''cabo'' \<in> set (split ?s) \<or> ''suporte'' \<in> set (split ?s))
             = (''cabo'' \<in> set (queryTokensOf q) \<or> ''suporte'' \<in> set (queryTokensOf q))"
    by (simp add: queryTokensOf_def)
  have pen: "\<not> ((''cabo'' \<in> set (split ?s) \<or> ''suporte'' \<in> set (split ?s)) \<and>
                \<not> (''cabo'' \<in> set syns \<or> ''suporte'' \<in> set syns))"
  proof
    assume h: "(''cabo'' \<in> set (split ?s) \<or> ''suporte'' \<in> set (split ?s)) \<and>
               \<not> (''cabo'' \<in> set syns \<or> ''suporte'' \<in> set syns)"
    then have "''cabo'' \<in> set (queryTokensOf q) \<or> ''suporte'' \<in> set (queryTokensOf q)"
      by (simp only: acc)
    from np [OF this] self have "''cabo'' \<in> set syns \<or> ''suporte'' \<in> set syns"
      by (elim disjE) simp_all
    with h show False by simp
  qed
  have "calculateMatchScore p q =
          Inr (if (''cabo'' \<in> set (split ?s) \<or> ''suporte'' \<in> set (split ?s)) \<and>
                  \<not> (''cabo'' \<in> set syns \<or> ''suporte'' \<in> set syns)
               then 6000 + ?sum + 2000 - 3000 else 6000 + ?sum + 2000)"
    using gate w syns idx toks eq by (simp add: calculateMatchScore_def Let_def)
  with pen show ?thesis by (simp only: if_False) simp
qed

text \<open>
  Claim C1, amended. Take a query whose normalized text has at least one token and no
  token \<open>constructor\<close>, and in which the words \<open>cabo\<close> and \<open>suporte\<close> either do not occur
  or one of them is the first token, so that the accessory penalty does not fall on a
  title equal to the query. Then a catalog item whose normalized title equals the
  normalized query scores 8000 plus the sum of the weights of the query tokens; no item
  scores more on that query; and the item is the first candidate returned whenever every
  earlier catalog item scores strictly less, that is, whenever no earlier item ties with it.
\<close>

theorem exact_title_maximal_and_first:
  assumes "normalizeText (title p) = normalizeText q"
    and "queryTokensOf q \<noteq> []"
    and "''constructor'' \<notin> set (queryTokensOf q)"
    and "''cabo'' \<in> set (queryTokensOf q) \<or> ''suporte'' \<in> set (queryTokensOf q)
         \<Longrightarrow> hd (queryTokensOf q) = ''cabo'' \<or> hd (queryTokensOf q) = ''suporte''"
  shows "calculateMatchScore p q = Inr (8000 + sum_list (map tokenWeight (queryTokensOf q))) \<and>
         (\<forall>x. scoreOf x q \<le> scoreOf p q) \<and>
         (list_all (\<lambda>x. scoreOf x q < scoreOf p q) before \<longrightarrow>
            (\<exists>ms. rank (before @ p # after) q
                   = Inr (p\<lparr>matchScore := Some (scoreOf p q)\<rparr> # ms)))"
proof -
  from assms(2) obtain a ts where toks: "queryTokensOf q = a # ts"
    by (cases "queryTokensOf q") auto
  have np: "''cabo'' \<in> set (queryTokensOf q) \<or> ''suporte'' \<in> set (queryTokensOf q)
            \<Longrightarrow> a = ''cabo'' \<or> a = ''suporte''"
    using assms(4) by (simp add: toks)
  have val: "calculateMatchScore p q
             = Inr (8000 + sum_list (map tokenWeight (queryTokensOf q)))"
    by (rule exact_score_value [OF assms(1) toks assms(3) np])
  then have sv: "scoreOf p q = 8000 + sum_list (map tokenWeight (queryTokensOf q))"
    by (simp add: scoreOf_def)
  have mx: "\<And>x. scoreOf x q \<le> scoreOf p q"
    unfolding sv by (rule score_upper [OF assms(3)])
  have "3000 \<le> scoreOf p q" by (rule exact_title_score [OF assms(1-3)])
  then have pos: "0 < scoreOf p q" by simp
  have aft: "list_all (\<lambda>x. scoreOf x q \<le> scoreOf p q) after"
    by (simp add: list_all_iff mx)
  have fst: "list_all (\<lambda>x. scoreOf x q < scoreOf p q) before \<longrightarrow>
            (\<exists>ms. rank (before @ p # after) q
                   = Inr (p\<lparr>matchScore := Some (scoreOf p q)\<rparr> # ms))"
  proof
    assume "list_all (\<lambda>x. scoreOf x q < scoreOf p q) before"
    from rank_first_best [OF assms(3) pos this aft]
    show "\<exists>ms. rank (before @ p # after) q
                = Inr (p\<lparr>matchScore := Some (scoreOf p q)\<rparr> # ms)" .
  qed
  from val mx fst show ?thesis by (intro conjI allI)
qed

lemma weights_mayo_handle: "tokenWeight ''mayo'' + tokenWeight ''handle'' = 9000"
  by (simp add: tokenWeight_def STOP_WORDS_def CATEGORY_TERMS_def isNumeric_def
      decimalLiteral_def radixLiteral_def isDigit_def)

theorem exact_title_maximal_and_first_witness:
  "normalizeText (title mayoHandle) = normalizeText ''mayo handle'' \<and>
   queryTokensOf ''mayo handle'' = [''mayo'', ''handle''] \<and>
   ''constructor'' \<notin> set (queryTokensOf ''mayo handle'') \<and>
   ''cabo'' \<notin> set (queryTokensOf ''mayo handle'') \<and>
   ''suporte'' \<notin> set (queryTokensOf ''mayo handle'') \<and>
   calculateMatchScore mayoHandle ''mayo handle'' = Inr 17000 \<and>
   scoreOf mayoCabo ''mayo handle'' = 3500 \<and>
   (\<forall>x. scoreOf x ''mayo handle'' \<le> 17000) \<and>
   (\<exists>ms. rank ([mayoCabo] @ mayoHandle # [sensorY]) ''mayo handle''
           = Inr (mayoHandle\<lparr>matchScore := Some 17000\<rparr> # ms))"
proof -
  have h1: "normalizeText (title mayoHandle) = normalizeText ''mayo handle''"
    by (simp add: mayoHandle_def)
  have h2: "queryTokensOf ''mayo handle'' \<noteq> []" by (simp add: tokens_mayo_handle)
  have h3: "''constructor'' \<notin> set (queryTokensOf ''mayo handle'')"
    by (simp add: tokens_mayo_handle)
  have c1: "''cabo'' \<notin> set (queryTokensOf ''mayo handle'')"
    by (simp add: tokens_mayo_handle)
  have c2: "''suporte'' \<notin> set (queryTokensOf ''mayo handle'')"
    by (simp add: tokens_mayo_handle)
  have h4: "''cabo'' \<in> set (queryTokensOf ''mayo handle'') \<or>
            ''suporte'' \<in> set (queryTokensOf ''mayo handle'')
            \<Longrightarrow> hd (queryTokensOf ''mayo handle'') = ''cabo'' \<or>
                hd (queryTokensOf ''mayo handle'') = ''suporte''"
    using c1 c2 by simp
  note inst = exact_title_maximal_and_first [OF h1 h2 h3 h4, of "[mayoCabo]" "[sensorY]"]
  from inst have v: "calculateMatchScore mayoHandle ''mayo handle'' = Inr 17000"
    by (simp add: tokens_mayo_handle weights_mayo_handle)
  then have s: "scoreOf mayoHandle ''mayo handle'' = 17000" by (simp add: scoreOf_def)
  have sc: "scoreOf mayoCabo ''mayo handle'' = 3500"
    by (simp add: scoreOf_def score_mayoCabo_handle)
  from inst s have mx: "\<forall>x. scoreOf x ''mayo handle'' \<le> 17000" by simp
  have b: "list_all (\<lambda>x. scoreOf x ''mayo handle'' < scoreOf mayoHandle ''mayo handle'')
             [mayoCabo]"
    by (simp add: s sc)
  from inst b s
  have r: "\<exists>ms. rank ([mayoCabo] @ mayoHandle # [sensorY]) ''mayo handle''
           = Inr (mayoHandle\<lparr>matchScore := Some 17000\<rparr> # ms)"
    by simp
  from h1 tokens_mayo_handle h3 c1 c2 v sc mx r show ?thesis by (intro conjI)
qed

lemma rank_total:
  assumes "''constructor'' \<notin> set (queryTokensOf q)"
  shows "\<exists>ms. rank ps q = Inr ms"
proof -
  have "scoreAll calculateMatchScore ps q
        = Inr (map (\<lambda>x. x\<lparr>matchScore := Some (scoreOf x q)\<rparr>) ps)"
    unfolding scoreAll_def by (rule mapE_pure) (simp add: score_total [OF assms])
  then show ?thesis by (simp add: rank_def rankWith_def)
qed

text \<open>
  Claim C2. The ranking of a term returns for every catalog and every query none of whose
  tokens is \<open>constructor\<close>; and whenever it returns, the list holds at most 15
  candidates, is sorted by non-increasing score, holds no candidate of score 0 or less,
  and among candidates of one score keeps the order of the catalog: with \<open>scored\<close> the
  catalog in its input order, each item carrying its score, the returned candidates of
  score \<open>k\<close> are the first items of score \<open>k\<close> of \<open>scored\<close>, in that order.
\<close>

theorem rank_bounded_sorted_positive_stable:
  "(''constructor'' \<notin> set (queryTokensOf q) \<longrightarrow> (\<exists>ms. rank ps q = Inr ms)) \<and>
   (rank ps q = Inr ms \<longrightarrow>
     (\<exists>scored. scoreAll calculateMatchScore ps q = Inr scored \<and>
        list_all2 (\<lambda>p sp. \<exists>s. calculateMatchScore p q = Inr s \<and> sp = p\<lparr>matchScore := Some s\<rparr>)
          ps scored \<and>
        length ms \<le> 15 \<and>
        sorted_wrt (\<lambda>a b. scoreOr0 a \<ge> scoreOr0 b) ms \<and>
        list_all (\<lambda>p. 0 < scoreOr0 p) ms \<and>
        (\<forall>k. filter (\<lambda>p. scoreOr0 p = k) ms =
               take (length (filter (\<lambda>p. scoreOr0 p = k) ms))
                 (filter (\<lambda>p. scoreOr0 p = k) scored))))"
proof (intro conjI impI)
  assume "''constructor'' \<notin> set (queryTokensOf q)"
  then show "\<exists>ms. rank ps q = Inr ms" by (rule rank_total)
next
  assume "rank ps q = Inr ms"
  then show "\<exists>scored. scoreAll calculateMatchScore ps q = Inr scored \<and>
        list_all2 (\<lambda>p sp. \<exists>s. calculateMatchScore p q = Inr s \<and> sp = p\<lparr>matchScore := Some s\<rparr>)
          ps scored \<and>
        length ms \<le> 15 \<and>
        sorted_wrt (\<lambda>a b. scoreOr0 a \<ge> scoreOr0 b) ms \<and>
        list_all (\<lambda>p. 0 < scoreOr0 p) ms \<and>
        (\<forall>k. filter (\<lambda>p. scoreOr0 p = k) ms =
               take (length (filter (\<lambda>p. scoreOr0 p = k) ms))
                 (filter (\<lambda>p. scoreOr0 p = k) scored))"
    unfolding rank_def by (rule rankWith_properties)
qed

lemma tokens_mayo_cabo: "queryTokensOf ''mayo cabo'' = [''mayo'', ''cabo'']"
  by (simp add: queryTokensOf_def norm_mayo_cabo)

theorem rank_bounded_sorted_positive_stable_witness:
  "''constructor'' \<notin> set (queryTokensOf ''mayo cabo'') \<and>
   rank exampleCatalog ''mayo cabo'' = Inr rankedExample \<and>
   (\<exists>scored. scoreAll calculateMatchScore exampleCatalog ''mayo cabo'' = Inr scored \<and>
      list_all2 (\<lambda>p sp. \<exists>s. calculateMatchScore p ''mayo cabo'' = Inr s \<and>
                          sp = p\<lparr>matchScore := Some s\<rparr>)
        exampleCatalog scored \<and>
      length rankedExample \<le> 15 \<and>
      sorted_wrt (\<lambda>a b. scoreOr0 a \<ge> scoreOr0 b) rankedExample \<and>
      list_all (\<lambda>p. 0 < scoreOr0 p) rankedExample \<and>
      (\<forall>k. filter (\<lambda>p. scoreOr0 p = k) rankedExample =
             take (length (filter (\<lambda>p. scoreOr0 p = k) rankedExample))
               (filter (\<lambda>p. scoreOr0 p = k) scored)))"
proof -
  have nc: "''constructor'' \<notin> set (queryTokensOf ''mayo cabo'')"
    by (simp add: tokens_mayo_cabo)
  have r: "rank exampleCatalog ''mayo cabo'' = Inr rankedExample"
    by (simp add: rank_example rankedExample_def)
  from rank_bounded_sorted_positive_stable [of "''mayo cabo''" exampleCatalog rankedExample]
    nc r
  show ?thesis by blast
qed

subsection \<open>The two scoring variants\<close>

lemma findIndex_none: "(\<And>x. x \<in> set xs \<Longrightarrow> \<not> P x) \<Longrightarrow> findIndex P xs = - 1"
  by (induction xs) (simp_all add: Let_def)

lemma synonyms_strict_defined:
  assumes "''constructor'' \<notin> set ts" and "t \<in> set ts"
  shows "\<exists>syns. synonyms medicalThesaurus_strict t = Inr syns"
proof -
  have "t \<noteq> ''constructor''" by (rule member_neq [OF assms])
  then show ?thesis by (cases "map_of medicalThesaurus_strict t") (simp_all add: synonyms_def)
qed

lemma containsAllTokens_total:
  assumes "''constructor'' \<notin> set ts"
  shows "\<exists>b. containsAllTokens ts ttl = Inr b"
  unfolding containsAllTokens_def
proof (rule everyE_total)
  fix t assume "t \<in> set ts"
  from synonyms_strict_defined [OF assms this]
  obtain syns where "synonyms medicalThesaurus_strict t = Inr syns" by (elim exE)
  then show "\<exists>b. bindE (synonyms medicalThesaurus_strict t)
                    (\<lambda>syns. Inr (list_ex (\<lambda>syn. includesStr ttl syn) syns)) = Inr b"
    by auto
qed

lemma strict_rejects:
  assumes toks: "queryTokensOf q = a # b # rest"
    and nc: "''constructor'' \<notin> set (queryTokensOf q)"
    and syn: "synonyms medicalThesaurus_strict a = Inr anchorSynonyms"
    and ns: "\<not> productStartsWithAnchor anchorSynonyms (split (normalizeText (title p)))"
    and ncn: "\<not> productContainsAnchor anchorSynonyms (split (normalizeText (title p)))"
  shows "calculateMatchScore_strict p q = Inr (- 1)"
proof -
  from containsAllTokens_total [OF nc, of "normalizeText (title p)"]
  obtain c where "containsAllTokens (queryTokensOf q) (normalizeText (title p)) = Inr c"
    by (elim exE)
  with toks syn ns ncn show ?thesis
    by (simp add: calculateMatchScore_strict_def Let_def)
qed

lemma loose_accumulates:
  assumes toks: "queryTokensOf q = a # rest"
    and nc: "''constructor'' \<notin> set (queryTokensOf q)"
    and syn: "synonyms medicalThesaurus a = Inr anchorSynonyms"
    and nm: "list_all (\<lambda>w. w \<notin> set anchorSynonyms) (split (normalizeText (title p)))"
  shows "\<exists>gate w. allImportantTokensPresent (queryTokensOf q) (normalizeText (title p)) = Inr gate \<and>
           foldE (tokenScore (split (normalizeText (title p)))) (if gate then 6000 else 0)
             (queryTokensOf q) = Inr w \<and>
           0 \<le> w \<and>
           calculateMatchScore p q =
             Inr (if (''cabo'' \<in> set (split (normalizeText (title p))) \<or>
                      ''suporte'' \<in> set (split (normalizeText (title p)))) \<and>
                     \<not> (''cabo'' \<in> set anchorSynonyms \<or> ''suporte'' \<in> set anchorSynonyms)
                  then w - 3000 else w)"
proof -
  let ?title = "normalizeText (title p)"
  have sd: "\<And>t. t \<in> set (queryTokensOf q) \<Longrightarrow> \<exists>syns. synonyms medicalThesaurus t = Inr syns"
    by (rule synonyms_defined [OF nc])
  have "\<exists>g. allImportantTokensPresent (queryTokensOf q) ?title = Inr g"
    unfolding allImportantTokensPresent_def
  proof (rule everyE_total)
    fix t assume "t \<in> set (queryTokensOf q)"
    from sd [OF this] obtain syns where "synonyms medicalThesaurus t = Inr syns" by (elim exE)
    then show "\<exists>b. (if t \<in> set STOP_WORDS then Inr True
                else if length t < 3 \<and> isNumeric t then Inr True
                else bindE (synonyms medicalThesaurus t)
                       (\<lambda>syns. Inr (list_ex (\<lambda>syn. includesStr ?title syn) syns))) = Inr b"
      by auto
  qed
  then obtain g where gate: "allImportantTokensPresent (queryTokensOf q) ?title = Inr g"
    by (elim exE)
  from foldE_tokenScore_mono [OF sd, of "queryTokensOf q" "split ?title" "if g then 6000 else 0"]
  obtain w where w: "foldE (tokenScore (split ?title)) (if g then 6000 else 0) (queryTokensOf q)
                     = Inr w" and le: "(if g then 6000 else 0) \<le> w"
    by auto
  from le have w0: "0 \<le> w" by (cases g) simp_all
  from nm have "findIndex (\<lambda>p. p \<in> set anchorSynonyms) (split ?title) = - 1"
    by (intro findIndex_none) (simp add: list_all_iff)
  with gate w syn toks have
    "calculateMatchScore p q =
       Inr (if (''cabo'' \<in> set (split ?title) \<or> ''suporte'' \<in> set (split ?title)) \<and>
               \<not> (''cabo'' \<in> set anchorSynonyms \<or> ''suporte'' \<in> set anchorSynonyms)
            then w - 3000 else w)"
    by (simp add: calculateMatchScore_def Let_def)
  with gate w w0 show ?thesis by blast
qed

lemma multipleOf200_add: "multipleOf200 x \<Longrightarrow> multipleOf200 y \<Longrightarrow> multipleOf200 (x + y)"
proof -
  assume "multipleOf200 x" "multipleOf200 y"
  then obtain k l :: int where "x = 200 * of_int k" "y = 200 * of_int l"
    by (auto simp add: multipleOf200_def)
  then have "x + y = 200 * of_int (k + l)" by (simp add: algebra_simps)
  then show ?thesis unfolding multipleOf200_def by (rule exI)
qed

lemma multipleOf200_int: "multipleOf200 (200 * of_int k)"
  unfolding multipleOf200_def by (rule exI) (rule refl)

lemma multipleOf200_consts:
  "multipleOf200 0" "multipleOf200 1000" "multipleOf200 2000" "multipleOf200 5000"
  "multipleOf200 6000" "multipleOf200 10000" "multipleOf200 (- 4000)" "multipleOf200 (- 3000)"
  using multipleOf200_int [of 0] multipleOf200_int [of 5] multipleOf200_int [of 10]
    multipleOf200_int [of 25] multipleOf200_int [of 30] multipleOf200_int [of 50]
    multipleOf200_int [of "- 20"] multipleOf200_int [of "- 15"]
  by simp_all

lemma multipleOf200_fuzzy: "multipleOf200 (1000 - of_nat d * 200)"
proof -
  have "(1000 :: rat) - of_nat d * 200 = 200 * of_int (5 - int d)" by simp
  then show ?thesis unfolding multipleOf200_def by (rule exI)
qed

lemma multipleOf200_not_minus_one: "\<not> multipleOf200 (- 1)"
proof
  assume "multipleOf200 (- 1)"
  then obtain k :: int where "(- 1 :: rat) = 200 * of_int k" by (auto simp add: multipleOf200_def)
  then have "(of_int (- 1) :: rat) = of_int (200 * k)" by simp
  then have "- 1 = 200 * k" by (simp only: of_int_eq_iff)
  then show False by presburger
qed

lemma wordStep_multipleOf200: "multipleOf200 b \<Longrightarrow> multipleOf200 (wordStep t syns b w)"
  by (auto simp add: wordStep_def Let_def max_def multipleOf200_consts multipleOf200_fuzzy)

lemma foldl_wordStep_multipleOf200:
  "multipleOf200 b \<Longrightarrow> multipleOf200 (foldl (wordStep t syns) b ws)"
  by (induction ws arbitrary: b) (simp_all add: wordStep_multipleOf200)

lemma strict_single_token:
  assumes "queryTokensOf q = [a]"
  shows "calculateMatchScore_strict p q \<noteq> Inr (- 1)"
proof (cases "containsAllTokens [a] (normalizeText (title p))")
  case (Inl e)
  with assms show ?thesis by (simp add: calculateMatchScore_strict_def Let_def)
next
  case (Inr c)
  then obtain syns where syn: "synonyms medicalThesaurus_strict a = Inr syns"
    by (cases "synonyms medicalThesaurus_strict a") (simp_all add: containsAllTokens_def)
  let ?pw = "split (normalizeText (title p))"
  let ?best = "foldl (wordStep a syns) 0 ?pw"
  have best: "multipleOf200 ?best"
    by (rule foldl_wordStep_multipleOf200) (rule multipleOf200_consts)
  have "\<exists>s0. multipleOf200 s0 \<and> calculateMatchScore_strict p q = Inr (s0 + ?best)"
    using assms Inr syn
    by (auto simp add: calculateMatchScore_strict_def Let_def tokenScore_strict_def
        multipleOf200_consts intro!: multipleOf200_add
        intro: exI [of _ "0::rat"] exI [of _ "1000::rat"] exI [of _ "5000::rat"]
               exI [of _ "6000::rat"] exI [of _ "10000::rat"] exI [of _ "5000 - 4000::rat"]
               exI [of _ "1000 - 4000::rat"] exI [of _ "- 4000::rat"]
               exI [of _ "5000 + 5000 - 4000::rat"] exI [of _ "5000 + 1000 - 4000::rat"])
  then obtain s0 where "multipleOf200 s0" "calculateMatchScore_strict p q = Inr (s0 + ?best)"
    by blast
  with best multipleOf200_add [of s0 ?best] multipleOf200_not_minus_one show ?thesis by auto
qed

lemmas strict_eval =
  calculateMatchScore_strict_def queryTokensOf_def containsAllTokens_def synonyms_def
  medicalThesaurus_strict_def startsWith_def productStartsWithAnchor_def
  productContainsAnchor_def accessoryKeywords_def tokenScore_strict_def wordStep_def
  levenshtein_strict_def Let_def

lemma norm_sensor_y: "normalizeText ''sensor y'' = ''sensor y''"
  by (simp add: normalize_eval)

lemma norm_sen_x: "normalizeText ''sen x'' = ''sen x''"
  by (simp add: normalize_eval)

lemma norm_pinca_mayo: "normalizeText ''pinca mayo'' = ''pinca mayo''"
  by (simp add: normalize_eval)

lemma norm_kelly_pinca: "normalizeText ''kelly pinca'' = ''kelly pinca''"
  by (simp add: normalize_eval)

lemma norm_kelly: "normalizeText ''kelly'' = ''kelly''"
  by (simp add: normalize_eval)

lemma strict_score_sensorY: "calculateMatchScore_strict sensorY ''sen x'' = Inr 5800"
  by (simp add: strict_eval sensorY_def norm_sensor_y norm_sen_x)

lemma loose_score_pincaMayo: "calculateMatchScore pincaMayo ''kelly pinca'' = Inr 2500"
  by (simp add: score_eval pincaMayo_def norm_pinca_mayo norm_kelly_pinca)

text \<open>
  Claim C3, as stated, fails for the stricter variant (the older source): its anchor test
  also accepts a first title word that merely starts with an anchor synonym. The query
  \<open>sen x\<close> has two tokens; its anchor \<open>sen\<close> is no thesaurus key, so its only synonym is
  itself; the title \<open>sensor y\<close> has the tokens \<open>sensor\<close> and \<open>y\<close>, none of them equal to
  \<open>sen\<close>. The item is not rejected: \<open>sensor\<close> starts with \<open>sen\<close> (5000), and \<open>x\<close> is
  at distance 1 from \<open>y\<close> (800), so the score is 5800, not a negative value.
\<close>

theorem strict_anchor_prefix_counterexample:
  "queryTokensOf ''sen x'' = [''sen'', ''x''] \<and>
   synonyms medicalThesaurus_strict ''sen'' = Inr [''sen''] \<and>
   split (normalizeText (title sensorY)) = [''sensor'', ''y''] \<and>
   ''sen'' \<notin> set (split (normalizeText (title sensorY))) \<and>
   calculateMatchScore_strict sensorY ''sen x'' = Inr 5800"
proof -
  have 1: "queryTokensOf ''sen x'' = [''sen'', ''x'']"
    by (simp add: queryTokensOf_def norm_sen_x)
  have 2: "synonyms medicalThesaurus_strict ''sen'' = Inr [''sen'']"
    by (simp add: synonyms_def medicalThesaurus_strict_def)
  have 3: "split (normalizeText (title sensorY)) = [''sensor'', ''y'']"
    by (simp add: sensorY_def norm_sensor_y)
  have 4: "''sen'' \<notin> set (split (normalizeText (title sensorY)))"
    by (simp add: 3)
  from 1 2 3 4 strict_score_sensorY show ?thesis by (intro conjI)
qed

text \<open>
  Claim C3, amended. Take a query none of whose tokens is \<open>constructor\<close>.
  (1) If it has at least two tokens and no synonym of its anchor (in the stricter variant's
  thesaurus) equals a title word or is a prefix of the first title word, the stricter
  variant returns -1. (2) If no title token is a synonym of its anchor (in the looser
  variant's thesaurus), the looser variant has no rejection: it returns the accumulated
  sum \<open>w\<close> of the gate bonus and the token scores, which is at least 0, less the accessory
  penalty of 3000 where that applies. (3) On a query of one token the stricter variant
  never returns -1.
\<close>

theorem scoring_variants_diverge:
  "(queryTokensOf q = a # b # rest \<and> ''constructor'' \<notin> set (queryTokensOf q) \<and>
    synonyms medicalThesaurus_strict a = Inr synsS \<and>
    \<not> productStartsWithAnchor synsS (split (normalizeText (title p))) \<and>
    \<not> productContainsAnchor synsS (split (normalizeText (title p)))
    \<longrightarrow> calculateMatchScore_strict p q = Inr (- 1)) \<and>
   (queryTokensOf q = a # ts \<and> ''constructor'' \<notin> set (queryTokensOf q) \<and>
    synonyms medicalThesaurus a = Inr synsL \<and>
    list_all (\<lambda>w. w \<notin> set synsL) (split (normalizeText (title p)))
    \<longrightarrow> (\<exists>gate w.
          allImportantTokensPresent (queryTokensOf q) (normalizeText (title p)) = Inr gate \<and>
          foldE (tokenScore (split (normalizeText (title p)))) (if gate then 6000 else 0)
            (queryTokensOf q) = Inr w \<and>
          0 \<le> w \<and>
          calculateMatchScore p q =
            Inr (if (''cabo'' \<in> set (split (normalizeText (title p))) \<or>
                     ''suporte'' \<in> set (split (normalizeText (title p)))) \<and>
                    \<not> (''cabo'' \<in> set synsL \<or> ''suporte'' \<in> set synsL)
                 then w - 3000 else w))) \<and>
   (queryTokensOf q1 = [a1] \<longrightarrow> calculateMatchScore_strict p q1 \<noteq> Inr (- 1))"
  using strict_rejects [of q a b rest synsS p] loose_accumulates [of q a ts synsL p]
    strict_single_token [of q1 a1 p]
  by (intro conjI impI) (elim conjE, assumption)+

theorem scoring_variants_diverge_witness:
  "queryTokensOf ''kelly pinca'' = ''kelly'' # ''pinca'' # [] \<and>
   ''constructor'' \<notin> set (queryTokensOf ''kelly pinca'') \<and>
   synonyms medicalThesaurus_strict ''kelly'' = Inr [''kelly'', ''kely''] \<and>
   \<not> productStartsWithAnchor [''kelly'', ''kely''] (split (normalizeText (title pincaMayo))) \<and>
   \<not> productContainsAnchor [''kelly'', ''kely''] (split (normalizeText (title pincaMayo))) \<and>
   calculateMatchScore_strict pincaMayo ''kelly pinca'' = Inr (- 1) \<and>
   synonyms medicalThesaurus ''kelly'' = Inr [''kelly'', ''kely'', ''keli''] \<and>
   list_all (\<lambda>w. w \<notin> set [''kelly'', ''kely'', ''keli''])
     (split (normalizeText (title pincaMayo))) \<and>
   (\<exists>gate w.
      allImportantTokensPresent (queryTokensOf ''kelly pinca'')
        (normalizeText (title pincaMayo)) = Inr gate \<and>
      foldE (tokenScore (split (normalizeText (title pincaMayo)))) (if gate then 6000 else 0)
        (queryTokensOf ''kelly pinca'') = Inr w \<and>
      0 \<le> w \<and>
      calculateMatchScore pincaMayo ''kelly pinca'' =
        Inr (if (''cabo'' \<in> set (split (normalizeText (title pincaMayo))) \<or>
                 ''suporte'' \<in> set (split (normalizeText (title pincaMayo)))) \<and>
                \<not> (''cabo'' \<in> set [''kelly'', ''kely'', ''keli''] \<or>
                   ''suporte'' \<in> set [''kelly'', ''kely'', ''keli''])
             then w - 3000 else w)) \<and>
   calculateMatchScore pincaMayo ''kelly pinca'' = Inr 2500 \<and>
   queryTokensOf ''kelly'' = [''kelly''] \<and>
   calculateMatchScore_strict pincaMayo ''kelly'' \<noteq> Inr (- 1)"
proof -
  have t: "queryTokensOf ''kelly pinca'' = ''kelly'' # ''pinca'' # []"
    by (simp add: queryTokensOf_def norm_kelly_pinca)
  have nc: "''constructor'' \<notin> set (queryTokensOf ''kelly pinca'')"
    by (simp add: t)
  have ss: "synonyms medicalThesaurus_strict ''kelly'' = Inr [''kelly'', ''kely'']"
    by (simp add: synonyms_def medicalThesaurus_strict_def)
  have pw: "split (normalizeText (title pincaMayo)) = [''pinca'', ''mayo'']"
    by (simp add: pincaMayo_def norm_pinca_mayo)
  have ns: "\<not> productStartsWithAnchor [''kelly'', ''kely'']
               (split (normalizeText (title pincaMayo)))"
    by (simp add: pw productStartsWithAnchor_def startsWith_def)
  have ncn: "\<not> productContainsAnchor [''kelly'', ''kely'']
                (split (normalizeText (title pincaMayo)))"
    by (simp add: pw productContainsAnchor_def)
  have sl: "synonyms medicalThesaurus ''kelly'' = Inr [''kelly'', ''kely'', ''keli'']"
    by (simp add: synonyms_def medicalThesaurus_def)
  have nm: "list_all (\<lambda>w. w \<notin> set [''kelly'', ''kely'', ''keli''])
              (split (normalizeText (title pincaMayo)))"
    by (simp add: pw)
  have t1: "queryTokensOf ''kelly'' = [''kelly'']"
    by (simp add: queryTokensOf_def norm_kelly)
  note inst = scoring_variants_diverge [of "''kelly pinca''" "''kelly''" "''pinca''" "[]"
      "[''kelly'', ''kely'']" pincaMayo "[''pinca'']" "[''kelly'', ''kely'', ''keli'']"
      "''kelly''" "''kelly''"]
  from inst t nc ss ns ncn
  have A: "calculateMatchScore_strict pincaMayo ''kelly pinca'' = Inr (- 1)" by blast
  from inst t1
  have C: "calculateMatchScore_strict pincaMayo ''kelly'' \<noteq> Inr (- 1)" by blast
  from inst t nc sl nm
  have B: "\<exists>gate w.
      allImportantTokensPresent (queryTokensOf ''kelly pinca'')
        (normalizeText (title pincaMayo)) = Inr gate \<and>
      foldE (tokenScore (split (normalizeText (title pincaMayo)))) (if gate then 6000 else 0)
        (queryTokensOf ''kelly pinca'') = Inr w \<and>
      0 \<le> w \<and>
      calculateMatchScore pincaMayo ''kelly pinca'' =
        Inr (if (''cabo'' \<in> set (split (normalizeText (title pincaMayo))) \<or>
                 ''suporte'' \<in> set (split (normalizeText (title pincaMayo)))) \<and>
                \<not> (''cabo'' \<in> set [''kelly'', ''kely'', ''keli''] \<or>
                   ''suporte'' \<in> set [''kelly'', ''kely'', ''keli''])
             then w - 3000 else w)"
    by blast
  from t nc ss ns ncn A sl nm B loose_score_pincaMayo t1 C show ?thesis by (intro conjI)
qed

subsection \<open>Extraction fallback\<close>

lemma splitRuns_no_separator:
  "piece \<in> set (splitRuns sep s) \<Longrightarrow> c \<in> set piece \<Longrightarrow> \<not> sep c"
proof (induction sep s arbitrary: piece rule: splitRuns.induct)
  case (1 sep)
  then show ?case by simp
next
  case (2 sep d s)
  show ?case
  proof (cases "sep d")
    case True
    with 2 show ?thesis by auto
  next
    case False
    show ?thesis
    proof (cases "splitRuns sep s")
      case Nil
      with False 2 show ?thesis by auto
    next
      case (Cons t ts)
      with False 2(3) have "piece = d # t \<or> piece \<in> set ts" by simp
      then show ?thesis
      proof
        assume "piece = d # t"
        with 2(4) have "c = d \<or> c \<in> set t" by simp
        then show ?thesis
        proof
          assume "c = d" with False show ?thesis by simp
        next
          assume "c \<in> set t"
          with 2(2)[OF False, of t] Cons show ?thesis by simp
        qed
      next
        assume "piece \<in> set ts"
        with 2(2)[OF False, of piece] 2(4) Cons show ?thesis by simp
      qed
    qed
  qed
qed

lemma fallbackItems_names:
  "map name (fallbackItems rawText)
   = filter (\<lambda>s. s \<noteq> []) (map trim (splitRuns isSeparator rawText))"
  by (simp add: fallbackItems_def filter_map comp_def)

lemma fallbackItems_item:
  assumes "i \<in> set (fallbackItems rawText)"
  shows "quantity i = 1 \<and> name i \<noteq> [] \<and> CHR '','' \<notin> set (name i) \<and> CHR 0x0A \<notin> set (name i)"
proof -
  from assms obtain piece where piece: "piece \<in> set (splitRuns isSeparator rawText)"
    and i: "i = \<lparr>name = trim piece, quantity = 1\<rparr>" and ne: "trim piece \<noteq> []"
    by (auto simp add: fallbackItems_def)
  have "\<And>c. c \<in> set (trim piece) \<Longrightarrow> \<not> isSeparator c"
    using set_trim [of piece] splitRuns_no_separator [OF piece] by blast
  then have "CHR '','' \<notin> set (trim piece)" and "CHR 0x0A \<notin> set (trim piece)"
    by (auto simp add: isSeparator_def)
  with i ne show ?thesis by simp
qed

text \<open>
  Claim C7. When the external extraction call fails (it throws, or its response has no
  text), and also when its text is not valid JSON, \<open>extractShoppingItems\<close> returns the
  fallback list: the raw text split at runs of line feeds and commas, each piece trimmed,
  the empty ones dropped, each with quantity 1. The function returns a list in every case:
  the failure does not reach the caller.
\<close>

theorem extraction_failure_falls_back:
  "extractShoppingItems CallFails rawText = fallbackItems rawText \<and>
   extractShoppingItems NoText rawText = fallbackItems rawText \<and>
   extractShoppingItems BadJson rawText = fallbackItems rawText \<and>
   map name (fallbackItems rawText)
     = filter (\<lambda>s. s \<noteq> []) (map trim (splitRuns isSeparator rawText)) \<and>
   list_all (\<lambda>i. quantity i = 1 \<and> name i \<noteq> [] \<and> CHR '','' \<notin> set (name i) \<and>
                 CHR 0x0A \<notin> set (name i))
     (fallbackItems rawText)"
  using fallbackItems_item [of _ rawText]
  by (simp add: extractShoppingItems_def tryExtract_def fallbackItems_names list_all_iff)

lemma fallback_example:
  "fallbackItems (''mayo cabo, zzzz'' @ [CHR 0x0A] @ '' kelly ,'')
   = [\<lparr>name = ''mayo cabo'', quantity = 1\<rparr>, \<lparr>name = ''zzzz'', quantity = 1\<rparr>,
      \<lparr>name = ''kelly'', quantity = 1\<rparr>]"
  by (simp add: fallbackItems_def isSeparator_def trim_def isWhiteSpace_def)

theorem extraction_failure_witness:
  "extractShoppingItems CallFails (''mayo cabo, zzzz'' @ [CHR 0x0A] @ '' kelly ,'')
   = [\<lparr>name = ''mayo cabo'', quantity = 1\<rparr>, \<lparr>name = ''zzzz'', quantity = 1\<rparr>,
      \<lparr>name = ''kelly'', quantity = 1\<rparr>]"
  using extraction_failure_falls_back [of "''mayo cabo, zzzz'' @ [CHR 0x0A] @ '' kelly ,''"]
  by (simp only: fallback_example)

subsection \<open>Quotation state and totals\<close>

lemma searchItems_entries:
  "snd (searchItems ps k items q0) i = Some sel \<Longrightarrow>
   q0 i = Some sel \<or>
   (\<exists>j m ms. i = k + j \<and> j < length items \<and> rank ps (name (items ! j)) = Inr (m # ms) \<and>
              sel = [(idP m, quantity (items ! j))])"
proof (induction items arbitrary: k q0)
  case Nil
  then show ?case by simp
next
  case (Cons item items)
  show ?case
  proof (cases "rank ps (name item)")
    case (Inl e)
    with Cons.prems show ?thesis by simp
  next
    case (Inr matches)
    let ?q' = "case matches of [] \<Rightarrow> q0 | m # _ \<Rightarrow> q0(k \<mapsto> [(idP m, quantity item)])"
    from Cons.prems Inr have "snd (searchItems ps (Suc k) items ?q') i = Some sel"
      by (simp add: Let_def split: prod.splits sum.splits)
    from Cons.IH [OF this] show ?thesis
    proof
      assume q': "?q' i = Some sel"
      show ?thesis
      proof (cases matches)
        case Nil
        with q' show ?thesis by simp
      next
        case (Cons m ms)
        show ?thesis
        proof (cases "i = k")
          case True
          with q' Cons have "sel = [(idP m, quantity item)]" by simp
          with True Inr Cons have
            "i = k + 0 \<and> 0 < length (item # items) \<and>
             rank ps (name ((item # items) ! 0)) = Inr (m # ms) \<and>
             sel = [(idP m, quantity ((item # items) ! 0))]"
            by simp
          then show ?thesis by blast
        next
          case False
          with q' Cons show ?thesis by simp
        qed
      qed
    next
      assume "\<exists>j m ms. i = Suc k + j \<and> j < length items \<and>
                rank ps (name (items ! j)) = Inr (m # ms) \<and>
                sel = [(idP m, quantity (items ! j))]"
      then obtain j m ms where "i = Suc k + j" "j < length items"
        "rank ps (name (items ! j)) = Inr (m # ms)" "sel = [(idP m, quantity (items ! j))]"
        by blast
      then have "i = k + Suc j \<and> Suc j < length (item # items) \<and>
                 rank ps (name ((item # items) ! Suc j)) = Inr (m # ms) \<and>
                 sel = [(idP m, quantity ((item # items) ! Suc j))]"
        by simp
      then show ?thesis by blast
    qed
  qed
qed

lemma handleSearch_quotationState:
  "trim queryInput \<noteq> [] \<Longrightarrow>
   quotationState (handleSearch outcome queryInput st)
   = snd (searchItems (allProducts st) 0 (extractShoppingItems outcome queryInput) Map.empty)"
  by (simp add: handleSearch_def split: prod.splits sum.splits)

lemma handleSearch_autofill:
  assumes "trim queryInput \<noteq> []"
    and "quotationState (handleSearch outcome queryInput st) i = Some sel"
  shows "\<exists>m ms. i < length (extractShoppingItems outcome queryInput) \<and>
           rank (allProducts st) (name (extractShoppingItems outcome queryInput ! i))
             = Inr (m # ms) \<and>
           sel = [(idP m, quantity (extractShoppingItems outcome queryInput ! i))]"
proof -
  from assms have
    "snd (searchItems (allProducts st) 0 (extractShoppingItems outcome queryInput) Map.empty) i
     = Some sel"
    by (simp add: handleSearch_quotationState)
  from searchItems_entries [OF this] show ?thesis by auto
qed

lemma singleSelect_handleSearch:
  assumes "singleSelect (quotationState st)"
  shows "singleSelect (quotationState (handleSearch outcome queryInput st))"
proof (cases "trim queryInput = []")
  case True
  with assms show ?thesis by (simp add: handleSearch_def)
next
  case False
  show ?thesis
    unfolding singleSelect_def
  proof (intro allI impI)
    fix i sel
    assume "quotationState (handleSearch outcome queryInput st) i = Some sel"
    from handleSearch_autofill [OF False this] show "length sel = 1" by auto
  qed
qed

lemma reachable_singleSelect: "reachable st \<Longrightarrow> singleSelect (quotationState st)"
proof (induction rule: reachable.induct)
  case init
  show ?case by (simp add: singleSelect_def initialState_def)
next
  case (load st data)
  then show ?case by (simp add: setAllProducts_def)
next
  case (search st outcome queryInput)
  then show ?case by (simp add: singleSelect_handleSearch)
next
  case (quantity st termIndex productId newQty)
  then show ?case by (simp add: singleSelect_def handleQuantityChange_def)
next
  case (toggle st result tIdx pId)
  then show ?case by (simp add: singleSelect_def onToggleSelect_def)
next
  case (supplierFilter st s)
  then show ?case by (simp add: setSelectedSupplierFilter_def)
next
  case (reset st)
  show ?case by (simp add: singleSelect_def)
next
  case (autofill st index m qty)
  then show ?case by (simp add: singleSelect_def)
qed

text \<open>
  Claim C6. In every reachable state each line of the selection state that has an entry
  has exactly one (product id, quantity) pair. A search that starts (non-blank input)
  builds the selection state from the empty one, whatever it was before; each of its entries
  is the id of the first candidate of that line with the quantity of the line's term, and
  only a line with at least one candidate has one; a quantity change and a selection
  toggle set the line's entry to a single pair.
\<close>

theorem selection_state_single_select:
  "(reachable st \<longrightarrow> (\<forall>i sel. quotationState st i = Some sel \<longrightarrow> length sel = 1)) \<and>
   (trim queryInput \<noteq> [] \<longrightarrow>
      quotationState (handleSearch outcome queryInput (s\<lparr>quotationState := q0\<rparr>))
      = quotationState (handleSearch outcome queryInput s)) \<and>
   (trim queryInput \<noteq> [] \<and> quotationState (handleSearch outcome queryInput s) i = Some sel
    \<longrightarrow> (\<exists>m ms. i < length (extractShoppingItems outcome queryInput) \<and>
          rank (allProducts s) (name (extractShoppingItems outcome queryInput ! i))
            = Inr (m # ms) \<and>
          sel = [(idP m, quantity (extractShoppingItems outcome queryInput ! i))])) \<and>
   quotationState (handleQuantityChange termIndex productId newQty s) termIndex
     = Some [(productId, max 1 newQty)] \<and>
   quotationState (onToggleSelect result termIndex productId s) termIndex
     = Some [(productId, if detectedQuantity result \<noteq> 0 then detectedQuantity result else 1)]"
proof -
  have 1: "reachable st \<longrightarrow> (\<forall>i sel. quotationState st i = Some sel \<longrightarrow> length sel = 1)"
    using reachable_singleSelect [of st] by (simp add: singleSelect_def)
  have 2: "trim queryInput \<noteq> [] \<longrightarrow>
      quotationState (handleSearch outcome queryInput (s\<lparr>quotationState := q0\<rparr>))
      = quotationState (handleSearch outcome queryInput s)"
    by (simp add: handleSearch_quotationState)
  have 3: "trim queryInput \<noteq> [] \<and>
           quotationState (handleSearch outcome queryInput s) i = Some sel
    \<longrightarrow> (\<exists>m ms. i < length (extractShoppingItems outcome queryInput) \<and>
          rank (allProducts s) (name (extractShoppingItems outcome queryInput ! i))
            = Inr (m # ms) \<and>
          sel = [(idP m, quantity (extractShoppingItems outcome queryInput ! i))])"
    using handleSearch_autofill [of queryInput outcome s i sel] by blast
  have 4: "quotationState (handleQuantityChange termIndex productId newQty s) termIndex
     = Some [(productId, max 1 newQty)]"
    by (simp add: handleQuantityChange_def)
  have 5: "quotationState (onToggleSelect result termIndex productId s) termIndex
     = Some [(productId, if detectedQuantity result \<noteq> 0 then detectedQuantity result else 1)]"
    by (simp add: onToggleSelect_def)
  from 1 2 3 4 5 show ?thesis by (intro conjI)
qed

lemma norm_zzzz: "normalizeText ''zzzz'' = ''zzzz''"
  by (simp add: normalize_eval)

lemma score_mayoCabo_zzzz: "calculateMatchScore mayoCabo ''zzzz'' = Inr (- 3000)"
  by (simp add: score_eval mayoCabo_def norm_mayo_cabo norm_zzzz)

lemma score_mayoHandle_zzzz: "calculateMatchScore mayoHandle ''zzzz'' = Inr 0"
  by (simp add: score_eval mayoHandle_def norm_mayo_handle norm_zzzz)

lemma rank_zzzz: "rank exampleCatalog ''zzzz'' = Inr []"
  by (simp add: rank_def rankWith_def scoreAll_def exampleCatalog_def score_mayoCabo_zzzz
      score_mayoHandle_zzzz scoreOr0_def)

lemma rank_example_ranked: "rank exampleCatalog ''mayo cabo'' = Inr rankedExample"
  by (simp add: rank_example rankedExample_def)

lemma trim_x: "trim ''x'' = ''x''"
  by (simp add: trim_def isWhiteSpace_def)

lemma allProducts_loadedState: "allProducts loadedState = exampleCatalog"
  by (simp add: loadedState_def setAllProducts_def initialState_def exampleCatalog_def)

theorem selection_state_single_select_witness:
  "reachable (handleQuantityChange 0 ''prod-0'' 0 initialState) \<and>
   quotationState (handleQuantityChange 0 ''prod-0'' 0 initialState) 0 = Some [(''prod-0'', 1)] \<and>
   length [(''prod-0'', 1 :: rat)] = 1 \<and>
   trim ''x'' \<noteq> [] \<and>
   quotationState (handleSearch (Items twoTerms) ''x''
       (loadedState\<lparr>quotationState := Map.empty(5 \<mapsto> [(''prod-0'', 2)])\<rparr>))
     = quotationState (handleSearch (Items twoTerms) ''x'' loadedState) \<and>
   quotationState (handleSearch (Items twoTerms) ''x'' loadedState) 0 = Some [(''prod-1'', 3)] \<and>
   (\<exists>m ms. 0 < length (extractShoppingItems (Items twoTerms) ''x'') \<and>
      rank (allProducts loadedState) (name (extractShoppingItems (Items twoTerms) ''x'' ! 0))
        = Inr (m # ms) \<and>
      [(''prod-1'', 3)] = [(idP m, quantity (extractShoppingItems (Items twoTerms) ''x'' ! 0))])"
proof -
  let ?st = "handleQuantityChange 0 ''prod-0'' 0 initialState"
  note inst =
    selection_state_single_select [where st = ?st and queryInput = "''x''"
      and outcome = "Items twoTerms" and s = loadedState
      and ?q0.0 = "Map.empty(5 \<mapsto> [(''prod-0'', 2)])" and i = 0
      and sel = "[(''prod-1'', 3)]" and termIndex = 0 and productId = "''prod-0''"
      and newQty = 0 and result = lineExample]
  have r: "reachable ?st" by (intro reachable.quantity reachable.init)
  have q: "quotationState ?st 0 = Some [(''prod-0'', 1)]"
    by (simp add: handleQuantityChange_def)
  have t: "trim ''x'' \<noteq> []" by (simp add: trim_x)
  have e: "extractShoppingItems (Items twoTerms) ''x'' = twoTerms"
    by (simp add: extractShoppingItems_def tryExtract_def)
  have s: "quotationState (handleSearch (Items twoTerms) ''x'' loadedState) 0
           = Some [(''prod-1'', 3)]"
    by (simp add: handleSearch_def trim_x e allProducts_loadedState)
      (simp add: twoTerms_def rank_example_ranked rank_zzzz rankedExample_def mayoHandle_def
        Let_def)
  from inst t have 2: "quotationState (handleSearch (Items twoTerms) ''x''
       (loadedState\<lparr>quotationState := Map.empty(5 \<mapsto> [(''prod-0'', 2)])\<rparr>))
     = quotationState (handleSearch (Items twoTerms) ''x'' loadedState)" by blast
  from inst t s have 3: "\<exists>m ms. 0 < length (extractShoppingItems (Items twoTerms) ''x'') \<and>
      rank (allProducts loadedState) (name (extractShoppingItems (Items twoTerms) ''x'' ! 0))
        = Inr (m # ms) \<and>
      [(''prod-1'', 3)] = [(idP m, quantity (extractShoppingItems (Items twoTerms) ''x'' ! 0))]"
    by blast
  from r q t 2 s 3 show ?thesis by simp
qed

text \<open>
  Claim C5. After a quantity change of line \<open>termIndex\<close> to product \<open>productId\<close> (a
  non-empty id, as every id made by the catalog loader is) with any quantity, zero and negative
  ones included, the line's entry is that product with the quantity raised to at least 1,
  and the effective selection read by the total, the table and the export is that product
  id with that quantity, not the first candidate; the product shown is the candidate of
  the line with that id. The call always updates the state.
\<close>

theorem override_is_effective:
  assumes "productId \<noteq> []"
  shows "quotationState (handleQuantityChange termIndex productId newQty st) termIndex
           = Some [(productId, max 1 newQty)] \<and>
         activeId (quotationState (handleQuantityChange termIndex productId newQty st))
           termIndex result = productId \<and>
         activeQty (quotationState (handleQuantityChange termIndex productId newQty st))
           termIndex result = max 1 newQty \<and>
         activeProduct (quotationState (handleQuantityChange termIndex productId newQty st))
           termIndex result = find (\<lambda>pr. idP pr = productId) (products result)"
proof -
  have "max 1 newQty \<noteq> 0" by (simp add: max_def)
  with assms show ?thesis
    by (simp add: handleQuantityChange_def activeId_def activeQty_def activeProduct_def
        selectedIds_def Let_def)
qed

theorem override_is_effective_witness:
  "''prod-0'' \<noteq> [] \<and>
   quotationState (handleQuantityChange 0 ''prod-0'' (- 5) loadedState) 0
     = Some [(''prod-0'', 1)] \<and>
   activeId (quotationState (handleQuantityChange 0 ''prod-0'' (- 5) loadedState)) 0 lineExample
     = ''prod-0'' \<and>
   activeQty (quotationState (handleQuantityChange 0 ''prod-0'' (- 5) loadedState)) 0 lineExample
     = 1 \<and>
   activeProduct (quotationState (handleQuantityChange 0 ''prod-0'' (- 5) loadedState)) 0
     lineExample = Some (mayoCabo\<lparr>matchScore := Some 12000\<rparr>)"
proof -
  have h: "''prod-0'' \<noteq> []" by simp
  have f: "find (\<lambda>pr. idP pr = ''prod-0'') (products lineExample)
           = Some (mayoCabo\<lparr>matchScore := Some 12000\<rparr>)"
    by (simp add: lineExample_def rankedExample_def mayoCabo_def mayoHandle_def)
  from override_is_effective [OF h, of 0 "- 5" loadedState lineExample] f
  show ?thesis by simp
qed

lemma searchItems_two:
  assumes r1: "rank ps (name i1) = Inr (m # ms)" and r2: "rank ps (name i2) = Inr []"
  shows "searchItems ps 0 [i1, i2] Map.empty
         = (Inr [\<lparr>termR = name i1, originalTerm = name i1, products = m # ms,
                   detectedQuantity = quantity i1\<rparr>,
                 \<lparr>termR = name i2, originalTerm = name i2, products = [],
                   detectedQuantity = quantity i2\<rparr>],
            Map.empty(0 \<mapsto> [(idP m, quantity i1)]))"
  using assms by (simp add: Let_def)

text \<open>
  Claim C4. A search over exactly two terms, of which the first has at least one
  candidate and the second has none, with no later override and no supplier filter, gives
  a grand total equal to the price of the first line's top candidate (0 when the price is
  absent) times the first term's quantity, and the second line is classified as not found,
  in the search statistics and in the export status. Product ids are non-empty, as the
  catalog loader makes them (\<^verbatim>\<open>prod-<index>-<time>\<close> in \<^verbatim>\<open>fetchAndParseProducts\<close>).
\<close>

theorem two_term_quotation_total:
  assumes "trim queryInput \<noteq> []"
    and "extractShoppingItems outcome queryInput = [i1, i2]"
    and "rank (allProducts st) (name i1) = Inr (m # ms)"
    and "rank (allProducts st) (name i2) = Inr []"
    and "idP m \<noteq> []"
    and "selectedSupplierFilter st = allSuppliers"
  shows "grandTotal (handleSearch outcome queryInput st) = priceOr0 (Some m) * quantity i1 \<and>
         length (bulkResults (handleSearch outcome queryInput st)) = 2 \<and>
         classify (bulkResults (handleSearch outcome queryInput st) ! 1) = NotFound \<and>
         status (quotationState (handleSearch outcome queryInput st)) 1
           (filteredResults (handleSearch outcome queryInput st) ! 1) = NotFound"
proof -
  let ?r1 = "\<lparr>termR = name i1, originalTerm = name i1, products = m # ms,
               detectedQuantity = quantity i1\<rparr>"
  let ?r2 = "\<lparr>termR = name i2, originalTerm = name i2, products = [],
               detectedQuantity = quantity i2\<rparr>"
  let ?q = "Map.empty(0 \<mapsto> [(idP m, quantity i1)])"
  have hs: "handleSearch outcome queryInput st
            = st\<lparr>bulkResults := [?r1, ?r2], quotationState := ?q\<rparr>"
    using assms(1,2) searchItems_two [OF assms(3,4)] by (simp add: handleSearch_def)
  have fr: "filteredResults (handleSearch outcome queryInput st) = [?r1, ?r2]"
    using assms(6) by (simp add: hs filteredResults_def)
  have a1: "activeProduct ?q 0 ?r1 = Some m"
    using assms(5) by (simp add: activeProduct_def activeId_def selectedIds_def Let_def)
  have q1: "activeQty ?q 0 ?r1 = quantity i1"
    using assms(5) by (simp add: activeQty_def activeId_def selectedIds_def Let_def)
  have a2: "activeProduct ?q (Suc 0) ?r2 = None"
    by (simp add: activeProduct_def activeId_def selectedIds_def Let_def)
  have gt: "grandTotal (handleSearch outcome queryInput st) = priceOr0 (Some m) * quantity i1"
    unfolding grandTotal_def fr
    by (simp add: hs enumerate_eq_zip upt_conv_Cons a1 q1 a2) (simp add: priceOr0_def)
  have st2: "status ?q 1 ?r2 = NotFound" by (simp add: status_def a2)
  from gt st2 show ?thesis by (simp add: fr) (simp add: hs classify_def)
qed

theorem two_term_quotation_total_witness:
  "trim ''x'' \<noteq> [] \<and>
   extractShoppingItems (Items twoTerms) ''x''
     = [\<lparr>name = ''mayo cabo'', quantity = 3\<rparr>, \<lparr>name = ''zzzz'', quantity = 2\<rparr>] \<and>
   rank (allProducts loadedState) ''mayo cabo''
     = Inr (mayoHandle\<lparr>matchScore := Some 15000\<rparr> # [mayoCabo\<lparr>matchScore := Some 12000\<rparr>]) \<and>
   rank (allProducts loadedState) ''zzzz'' = Inr [] \<and>
   idP (mayoHandle\<lparr>matchScore := Some 15000\<rparr>) \<noteq> [] \<and>
   selectedSupplierFilter loadedState = allSuppliers \<and>
   grandTotal (handleSearch (Items twoTerms) ''x'' loadedState) = 15 / 2 \<and>
   classify (bulkResults (handleSearch (Items twoTerms) ''x'' loadedState) ! 1) = NotFound \<and>
   status (quotationState (handleSearch (Items twoTerms) ''x'' loadedState)) 1
     (filteredResults (handleSearch (Items twoTerms) ''x'' loadedState) ! 1) = NotFound"
proof -
  have h1: "trim ''x'' \<noteq> []" by (simp add: trim_x)
  have h2: "extractShoppingItems (Items twoTerms) ''x''
     = [\<lparr>name = ''mayo cabo'', quantity = 3\<rparr>, \<lparr>name = ''zzzz'', quantity = 2\<rparr>]"
    by (simp add: extractShoppingItems_def tryExtract_def twoTerms_def)
  have h3: "rank (allProducts loadedState) (name \<lparr>name = ''mayo cabo'', quantity = 3\<rparr>)
     = Inr (mayoHandle\<lparr>matchScore := Some 15000\<rparr> # [mayoCabo\<lparr>matchScore := Some 12000\<rparr>])"
    by (simp add: allProducts_loadedState rank_example)
  have h4: "rank (allProducts loadedState) (name \<lparr>name = ''zzzz'', quantity = 2\<rparr>) = Inr []"
    by (simp add: allProducts_loadedState rank_zzzz)
  have h5: "idP (mayoHandle\<lparr>matchScore := Some 15000\<rparr>) \<noteq> []"
    by (simp add: mayoHandle_def)
  have h6: "selectedSupplierFilter loadedState = allSuppliers"
    by (simp add: loadedState_def setAllProducts_def initialState_def exampleCatalog_def)
  have p: "priceOr0 (Some (mayoHandle\<lparr>matchScore := Some 15000\<rparr>)) * 3 = 15 / 2"
    by (simp add: priceOr0_def mayoHandle_def)
  from two_term_quotation_total [OF h1 h2 h3 h4 h5 h6] h1 h2 h3 h4 h5 h6 p
  show ?thesis by simp
qed

end
